theory Spec2Isabelle
  imports Main
begin

section \<open>JavaScript values\<close>

text \<open>
  The collection stores plain JavaScript objects and is queried with plain objects.
  A value is undefined, null, a boolean, a number, a string, an array or a plain object;
  \<open>Builtin n\<close> is the member named \<open>n\<close> that a property read reaches on a built-in
  prototype (\<open>doc.toString\<close> is a function although no document owns that field).

  Boundaries of the value model:
  \<^item> numbers are integers (no fractions, NaN or infinities are stored);
  \<^item> strings are lists of 8-bit characters, compared by character code;
  \<^item> an object lists its own enumerable properties in the order of \<open>Object.keys\<close>,
    each key once;
  \<^item> nested objects and arrays are values without identity: \<open>===\<close> between two of them
    is taken to compare two different references (it yields false);
  \<^item> the built-in prototypes are those of ECMAScript 2020.
\<close>

datatype jsval =
    Undefined
  | Null
  | Bool bool
  | Num int
  | Str string
  | Arr "jsval list"
  | Obj "(string \<times> jsval) list"
  | Builtin string

type_synonym obj = "(string \<times> jsval) list"

datatype error =
    InvalidArgument string
  | DuplicateIdError jsval
  | SubscriptionError string
  | TypeError
  | CollaboratorError string
  | Unsettled error

subsection \<open>Conversions of the host language\<close>

fun truthy :: "jsval \<Rightarrow> bool" where
  "truthy Undefined = False"
| "truthy Null = False"
| "truthy (Bool b) = b"
| "truthy (Num n) = (n \<noteq> 0)"
| "truthy (Str s) = (s \<noteq> [])"
| "truthy (Arr xs) = True"
| "truthy (Obj kvs) = True"
| "truthy (Builtin n) = True"

text \<open>\<open>typeof v === 'object'\<close>; of the built-in members only \<open>__proto__\<close> is an object.\<close>

fun typeof_object :: "jsval \<Rightarrow> bool" where
  "typeof_object Null = True"
| "typeof_object (Arr xs) = True"
| "typeof_object (Obj kvs) = True"
| "typeof_object (Builtin n) = (n = ''__proto__'')"
| "typeof_object v = False"

fun is_array :: "jsval \<Rightarrow> bool" where
  "is_array (Arr xs) = True"
| "is_array v = False"

text \<open>
  \<open>===\<close>. Two objects or arrays are equal only as one and the same reference, which the
  values do not record: the model answers false, and what is proved about the ids of
  documents is proved for primitive ids.
\<close>

fun strict_eq :: "jsval \<Rightarrow> jsval \<Rightarrow> bool" where
  "strict_eq Undefined Undefined = True"
| "strict_eq Null Null = True"
| "strict_eq (Bool a) (Bool b) = (a = b)"
| "strict_eq (Num a) (Num b) = (a = b)"
| "strict_eq (Str a) (Str b) = (a = b)"
| "strict_eq (Builtin a) (Builtin b) = (a = b)"
| "strict_eq a b = False"

definition digit_char :: "nat \<Rightarrow> char" where
  "digit_char d = char_of (48 + d)"

fun string_of_nat :: "nat \<Rightarrow> string" where
  "string_of_nat n =
     (if n < 10 then [digit_char n] else string_of_nat (n div 10) @ [digit_char (n mod 10)])"

declare string_of_nat.simps [simp del]

definition string_of_int :: "int \<Rightarrow> string" where
  "string_of_int i = (if i < 0 then CHR ''-'' # string_of_nat (nat (- i)) else string_of_nat (nat i))"

fun join_comma :: "string list \<Rightarrow> string" where
  "join_comma [] = []"
| "join_comma [s] = s"
| "join_comma (s # t # ss) = s @ '','' @ join_comma (t # ss)"

text \<open>
  The source text of a built-in function, as V8 prints it. Built-in members are reached
  by reads on documents and queries, which are plain objects: \<open>constructor\<close> is that
  of \<open>Object\<close>.
\<close>

definition builtin_text :: "string \<Rightarrow> string" where
  "builtin_text n =
     (if n = ''__proto__'' then ''[object Object]''
      else if n = ''constructor'' then ''function Object() { [native code] }''
      else ''function '' @ n @ ''() { [native code] }'')"

fun to_string :: "jsval \<Rightarrow> string" where
  "to_string Undefined = ''undefined''"
| "to_string Null = ''null''"
| "to_string (Bool b) = (if b then ''true'' else ''false'')"
| "to_string (Num n) = string_of_int n"
| "to_string (Str s) = s"
| "to_string (Arr xs) =
     join_comma (map (\<lambda>x. if x = Undefined \<or> x = Null then [] else to_string x) xs)"
| "to_string (Obj kvs) = ''[object Object]''"
| "to_string (Builtin n) = builtin_text n"

text \<open>\<open>ToPrimitive\<close> with hint number: objects and arrays have no numeric \<open>valueOf\<close>.\<close>

fun to_primitive :: "jsval \<Rightarrow> jsval" where
  "to_primitive (Arr xs) = Str (to_string (Arr xs))"
| "to_primitive (Obj kvs) = Str (to_string (Obj kvs))"
| "to_primitive (Builtin n) = Str (to_string (Builtin n))"
| "to_primitive v = v"

definition is_space :: "char \<Rightarrow> bool" where
  "is_space c = (of_char c \<in> {9, 10, 11, 12, 13, 32 :: nat})"

definition is_digit :: "char \<Rightarrow> bool" where
  "is_digit c = (48 \<le> (of_char c :: nat) \<and> (of_char c :: nat) \<le> 57)"

definition digits_value :: "string \<Rightarrow> int" where
  "digits_value ds = foldl (\<lambda>acc c. 10 * acc + (int (of_char c) - 48)) 0 ds"

text \<open>
  \<open>StringToNumber\<close> on the strings that denote integers: surrounding white space is
  dropped, the empty string is 0, an optional sign is followed by decimal digits.
  \<open>None\<close> is NaN. Strings denoting other numbers (fractions, exponents, radix prefixes,
  Infinity) are outside the integer model and are read as NaN here.
\<close>

definition string_to_number :: "string \<Rightarrow> int option" where
  "string_to_number s =
     (let t = rev (dropWhile is_space (rev (dropWhile is_space s))) in
      case t of
        [] \<Rightarrow> Some 0
      | c # cs \<Rightarrow>
          if c = CHR ''-'' \<and> cs \<noteq> [] \<and> list_all is_digit cs then Some (- digits_value cs)
          else if c = CHR ''+'' \<and> cs \<noteq> [] \<and> list_all is_digit cs then Some (digits_value cs)
          else if list_all is_digit (c # cs) then Some (digits_value (c # cs))
          else None)"

fun to_number :: "jsval \<Rightarrow> int option" where
  "to_number Undefined = None"
| "to_number Null = Some 0"
| "to_number (Bool b) = Some (if b then 1 else 0)"
| "to_number (Num n) = Some n"
| "to_number (Str s) = string_to_number s"
| "to_number v = string_to_number (to_string v)"

text \<open>Strings compare code unit by code unit; a proper prefix is smaller.\<close>

fun str_less :: "string \<Rightarrow> string \<Rightarrow> bool" where
  "str_less [] [] = False"
| "str_less [] (d # ds) = True"
| "str_less (c # cs) [] = False"
| "str_less (c # cs) (d # ds) =
     (if c = d then str_less cs ds else (of_char c :: nat) < of_char d)"

text \<open>
  The abstract relational comparison \<open>x < y\<close>: \<open>None\<close> is the answer "undefined" that
  a NaN operand gives, which every one of \<open><\<close>, \<open>>\<close>, \<open><=\<close>, \<open>>=\<close> turns into false.
\<close>

fun less_prim :: "jsval \<Rightarrow> jsval \<Rightarrow> bool option" where
  "less_prim (Str a) (Str b) = Some (str_less a b)"
| "less_prim a b =
     (case (to_number a, to_number b) of
        (Some x, Some y) \<Rightarrow> Some (x < y)
      | _ \<Rightarrow> None)"

definition js_less :: "jsval \<Rightarrow> jsval \<Rightarrow> bool option" where
  "js_less a b = less_prim (to_primitive a) (to_primitive b)"

definition js_lt :: "jsval \<Rightarrow> jsval \<Rightarrow> bool" where
  "js_lt a b = (js_less a b = Some True)"

definition js_gt :: "jsval \<Rightarrow> jsval \<Rightarrow> bool" where
  "js_gt a b = (js_less b a = Some True)"

definition js_le :: "jsval \<Rightarrow> jsval \<Rightarrow> bool" where
  "js_le a b = (js_less b a = Some False)"

definition js_ge :: "jsval \<Rightarrow> jsval \<Rightarrow> bool" where
  "js_ge a b = (js_less a b = Some False)"

subsection \<open>Properties\<close>

definition object_prototype_names :: "string list" where
  "object_prototype_names =
     [''constructor'', ''__defineGetter__'', ''__defineSetter__'', ''hasOwnProperty'',
      ''__lookupGetter__'', ''__lookupSetter__'', ''isPrototypeOf'',
      ''propertyIsEnumerable'', ''toString'', ''valueOf'', ''__proto__'',
      ''toLocaleString'']"

definition array_prototype_names :: "string list" where
  "array_prototype_names =
     [''concat'', ''copyWithin'', ''fill'', ''find'', ''findIndex'', ''lastIndexOf'',
      ''pop'', ''push'', ''reverse'', ''shift'', ''unshift'', ''slice'', ''sort'',
      ''splice'', ''includes'', ''indexOf'', ''join'', ''keys'', ''entries'', ''values'',
      ''forEach'', ''filter'', ''flat'', ''flatMap'', ''map'', ''every'', ''some'',
      ''reduce'', ''reduceRight'']"

definition string_prototype_names :: "string list" where
  "string_prototype_names =
     [''anchor'', ''big'', ''blink'', ''bold'', ''charAt'', ''charCodeAt'',
      ''codePointAt'', ''concat'', ''endsWith'', ''fontcolor'', ''fontsize'', ''fixed'',
      ''includes'', ''indexOf'', ''italics'', ''lastIndexOf'', ''link'',
      ''localeCompare'', ''match'', ''matchAll'', ''normalize'', ''padEnd'', ''padStart'',
      ''repeat'', ''replace'', ''search'', ''slice'', ''small'', ''split'', ''strike'',
      ''sub'', ''substr'', ''substring'', ''sup'', ''startsWith'', ''trim'',
      ''trimStart'', ''trimLeft'', ''trimEnd'', ''trimRight'', ''toLocaleLowerCase'',
      ''toLocaleUpperCase'', ''toLowerCase'', ''toUpperCase'']"

definition number_prototype_names :: "string list" where
  "number_prototype_names = [''toExponential'', ''toFixed'', ''toPrecision'']"

text \<open>The names a property read finds on the prototype chain of a value.\<close>

fun inherited_names :: "jsval \<Rightarrow> string list" where
  "inherited_names (Arr xs) = array_prototype_names @ object_prototype_names"
| "inherited_names (Str s) = string_prototype_names @ object_prototype_names"
| "inherited_names (Num n) = number_prototype_names @ object_prototype_names"
| "inherited_names v = object_prototype_names"

definition index_names :: "nat \<Rightarrow> string list" where
  "index_names n = map string_of_nat [0..<n]"

text \<open>
  The own properties of a value as \<open>Object.keys\<close> lists them with their values; an
  array and a string own their indices. For undefined and null the host raises a
  TypeError.
\<close>

fun entries :: "jsval \<Rightarrow> error + obj" where
  "entries Undefined = Inl TypeError"
| "entries Null = Inl TypeError"
| "entries (Obj kvs) = Inr kvs"
| "entries (Arr xs) = Inr (zip (index_names (length xs)) xs)"
| "entries (Str s) = Inr (zip (index_names (length s)) (map (\<lambda>c. Str [c]) s))"
| "entries v = Inr []"

text \<open>
  \<open>Object.prototype.hasOwnProperty.call(v, k)\<close>: besides the enumerable properties,
  arrays and strings own \<open>length\<close>. The own properties of built-in functions are not
  modelled.
\<close>

fun has_own :: "jsval \<Rightarrow> string \<Rightarrow> error + bool" where
  "has_own Undefined k = Inl TypeError"
| "has_own Null k = Inl TypeError"
| "has_own (Arr xs) k = Inr (k = ''length'' \<or> k \<in> set (index_names (length xs)))"
| "has_own (Str s) k = Inr (k = ''length'' \<or> k \<in> set (index_names (length s)))"
| "has_own v k = (case entries v of Inl e \<Rightarrow> Inl e | Inr kvs \<Rightarrow> Inr (k \<in> set (map fst kvs)))"

text \<open>
  The property read \<open>v[k]\<close>: the own property if there is one, else the built-in member
  of that name on the prototype chain, else undefined. Reading a property of undefined
  or null raises a TypeError.
\<close>

definition get_prop :: "jsval \<Rightarrow> string \<Rightarrow> error + jsval" where
  "get_prop v k =
     (case entries v of
        Inl e \<Rightarrow> Inl e
      | Inr kvs \<Rightarrow>
          (case map_of kvs k of
             Some x \<Rightarrow> Inr x
           | None \<Rightarrow>
               if k = ''length'' \<and> (is_array v \<or> (case v of Str s \<Rightarrow> True | _ \<Rightarrow> False))
               then Inr (Num (int (length kvs)))
               else if k \<in> set (inherited_names v) then Inr (Builtin k)
               else Inr Undefined))"


section \<open>The predicate matcher\<close>

text \<open>\<open>Array.prototype.findIndex\<close>: the first position that satisfies \<open>p\<close>, or -1.\<close>

fun findIndex :: "('a \<Rightarrow> bool) \<Rightarrow> 'a list \<Rightarrow> int" where
  "findIndex p [] = - 1"
| "findIndex p (x # xs) =
     (if p x then 0 else (let i = findIndex p xs in if i < 0 then - 1 else i + 1))"

fun is_prefix :: "string \<Rightarrow> string \<Rightarrow> bool" where
  "is_prefix [] s = True"
| "is_prefix (c # cs) [] = False"
| "is_prefix (c # cs) (d # ds) = (c = d \<and> is_prefix cs ds)"

fun substring_index :: "string \<Rightarrow> string \<Rightarrow> int" where
  "substring_index t [] = (if t = [] then 0 else - 1)"
| "substring_index t (c # cs) =
     (if is_prefix t (c # cs) then 0
      else (let i = substring_index t cs in if i < 0 then - 1 else i + 1))"

text \<open>
  \<open>operand.indexOf(v)\<close>: an array searches with \<open>===\<close>, a string searches for the
  text of \<open>v\<close>; no other value has an \<open>indexOf\<close> method, and calling it raises.
\<close>

fun index_of :: "jsval \<Rightarrow> jsval \<Rightarrow> error + int" where
  "index_of (Arr xs) v = Inr (findIndex (\<lambda>x. strict_eq x v) xs)"
| "index_of (Str s) v = Inr (substring_index (to_string v) s)"
| "index_of operand v = Inl TypeError"

text \<open>
  One case of the \<open>switch\<close> over the operator name: whether the value \<open>v\<close> of the
  field fails the operator. \<open>None\<close> is the \<open>default\<close> case.
\<close>

definition operatorDoNotMatch :: "string \<Rightarrow> jsval \<Rightarrow> jsval \<Rightarrow> (error + bool) option" where
  "operatorDoNotMatch subAttribute v operand =
     (if subAttribute = ''$lte'' then Some (Inr (js_gt v operand))
      else if subAttribute = ''$lt'' then Some (Inr (js_ge v operand))
      else if subAttribute = ''$gte'' then Some (Inr (js_lt v operand))
      else if subAttribute = ''$gt'' then Some (Inr (js_le v operand))
      else if subAttribute = ''$ne'' then Some (Inr (strict_eq v operand))
      else if subAttribute = ''$eq'' then Some (Inr (\<not> strict_eq v operand))
      else if subAttribute = ''$in'' then
        Some (case index_of operand v of Inl e \<Rightarrow> Inl e | Inr i \<Rightarrow> Inr (i < 0))
      else if subAttribute = ''$nin'' then
        Some (case index_of operand v of Inl e \<Rightarrow> Inl e | Inr i \<Rightarrow> Inr (i \<ge> 0))
      else if subAttribute = ''$exists'' then
        Some (if truthy operand then Inr (strict_eq v Undefined)
              else Inr (\<not> strict_eq v Undefined))
      else None)"

text \<open>
  \<open>Array.prototype.some\<close> stops at the first element whose callback returns true or
  throws: \<open>some_step r rest\<close> is the result of the callback on the current element
  followed by the result on the remaining ones.
\<close>

definition some_step :: "error + bool \<Rightarrow> error + bool \<Rightarrow> error + bool" where
  "some_step r rest = (case r of Inl e \<Rightarrow> Inl e | Inr True \<Rightarrow> Inr True | Inr False \<Rightarrow> rest)"

definition negate :: "error + bool \<Rightarrow> error + bool" where
  "negate r = (case r of Inl e \<Rightarrow> Inl e | Inr b \<Rightarrow> Inr (\<not> b))"

text \<open>
  The measure of the recursion: the number of object-typed values nested in the own
  properties of a query.
\<close>

fun qweight :: "jsval \<Rightarrow> nat" where
  "qweight (Arr xs) = Suc (sum_list (map qweight xs))"
| "qweight (Obj kvs) = Suc (sum_list (map (\<lambda>kv. qweight (snd kv)) kvs))"
| "qweight (Builtin n) = 1"
| "qweight Null = 1"
| "qweight v = 0"

definition entries_weight :: "jsval \<Rightarrow> nat" where
  "entries_weight q =
     (case entries q of Inl e \<Rightarrow> 0 | Inr kvs \<Rightarrow> sum_list (map (\<lambda>kv. qweight (snd kv)) kvs))"

text \<open>
  \<open>_elementIsValidForQuery\<close>. \<open>queryDoNotMatch\<close> is the outer \<open>some\<close> over the
  attributes of the query, \<open>subQueryDoNotMatch\<close> the inner one over the keys of an
  object-valued sub-query; its \<open>default\<close> case matches the value of the field against
  the whole sub-query.
\<close>

function elementIsValidForQuery :: "jsval \<Rightarrow> jsval \<Rightarrow> error + bool"
  and queryDoNotMatch :: "jsval \<Rightarrow> obj \<Rightarrow> error + bool"
  and subQueryDoNotMatch :: "jsval \<Rightarrow> string \<Rightarrow> jsval \<Rightarrow> obj \<Rightarrow> error + bool"
where
  "elementIsValidForQuery elementToTest query =
     (case entries query of
        Inl e \<Rightarrow> Inl e
      | Inr kvs \<Rightarrow> negate (queryDoNotMatch elementToTest kvs))"
| "queryDoNotMatch elementToTest [] = Inr False"
| "queryDoNotMatch elementToTest ((attribute, currentSubQuery) # rest) =
     some_step
       (if truthy currentSubQuery \<and> has_own elementToTest attribute \<noteq> Inr True then
          (case has_own elementToTest attribute of Inl e \<Rightarrow> Inl e | Inr b \<Rightarrow> Inr True)
        else if truthy currentSubQuery \<and> typeof_object currentSubQuery then
          (case entries currentSubQuery of
             Inl e \<Rightarrow> Inl e
           | Inr ops \<Rightarrow> subQueryDoNotMatch elementToTest attribute currentSubQuery ops)
        else
          (case get_prop elementToTest attribute of
             Inl e \<Rightarrow> Inl e
           | Inr v \<Rightarrow> Inr (\<not> strict_eq v currentSubQuery)))
       (queryDoNotMatch elementToTest rest)"
| "subQueryDoNotMatch elementToTest attribute currentSubQuery [] = Inr False"
| "subQueryDoNotMatch elementToTest attribute currentSubQuery ((subAttribute, operand) # rest) =
     some_step
       (case get_prop elementToTest attribute of
          Inl e \<Rightarrow> Inl e
        | Inr v \<Rightarrow>
            (case operatorDoNotMatch subAttribute v operand of
               Some r \<Rightarrow> r
             | None \<Rightarrow> negate (elementIsValidForQuery v currentSubQuery)))
       (subQueryDoNotMatch elementToTest attribute currentSubQuery rest)"
  by pat_completeness auto

termination
proof -
  have z: "length ks = length xs \<Longrightarrow>
      map (\<lambda>kv. qweight (snd kv)) (zip ks xs) = map qweight xs" for ks :: "string list" and xs
    by (induction ks xs rule: list_induct2) simp_all
  have w: "typeof_object v \<Longrightarrow> qweight v = Suc (entries_weight v)" for v
    by (cases v) (simp_all add: entries_weight_def index_names_def z)
  show ?thesis
    by (relation "measures [\<lambda>x. case x of
         Inl (el, q) \<Rightarrow> 3 * entries_weight q + 3
       | Inr (Inl (el, kvs)) \<Rightarrow> 3 * sum_list (map (\<lambda>kv. qweight (snd kv)) kvs) + 2
       | Inr (Inr (el, a, csq, ops)) \<Rightarrow> 3 * entries_weight csq + 4,
       \<lambda>x. case x of
         Inl (el, q) \<Rightarrow> 0
       | Inr (Inl (el, kvs)) \<Rightarrow> length kvs
       | Inr (Inr (el, a, csq, ops)) \<Rightarrow> length ops]")
      (auto simp: entries_weight_def w)
qed

declare elementIsValidForQuery.simps [simp del]

section \<open>The sort comparator\<close>

text \<open>A property read on a plain object, which never raises.\<close>

definition read_prop :: "obj \<Rightarrow> string \<Rightarrow> jsval" where
  "read_prop d k =
     (case map_of d k of
        Some v \<Rightarrow> v
      | None \<Rightarrow> if k \<in> set object_prototype_names then Builtin k else Undefined)"

text \<open>
  \<open>_orderByManyProperties\<close>. \<open>keys[keyIndex]\<close> beyond the end of \<open>keys\<close> is undefined,
  and a property read with the key undefined reads the property named \<open>undefined\<close>.
\<close>

function orderByManyProperties :: "obj \<Rightarrow> obj \<Rightarrow> obj \<Rightarrow> string list \<Rightarrow> nat \<Rightarrow> int" where
  "orderByManyProperties a b sortSpec keys keyIndex =
     (let currentKey = (if keyIndex < length keys then keys ! keyIndex else ''undefined'') in
      if js_gt (read_prop a currentKey) (read_prop b currentKey) then
        (if js_gt (read_prop sortSpec currentKey) (Num 0) then 1 else - 1)
      else if js_lt (read_prop a currentKey) (read_prop b currentKey) then
        (if js_lt (read_prop sortSpec currentKey) (Num 0) then 1 else - 1)
      else if keyIndex \<ge> length keys then 0
      else orderByManyProperties a b sortSpec keys (keyIndex + 1))"
  by pat_completeness auto
termination
  by (relation "measure (\<lambda>(a, b, sortSpec, keys, keyIndex). length keys - keyIndex)") auto

declare orderByManyProperties.simps [simp del]

text \<open>
  The comparator read as a walk along the keys that are left: the first key on which
  the two documents differ decides, by the sign of its direction; after the last key
  the property named \<open>undefined\<close> is compared once more.
\<close>

definition compare_at :: "obj \<Rightarrow> obj \<Rightarrow> obj \<Rightarrow> string \<Rightarrow> int \<Rightarrow> int" where
  "compare_at a b sortSpec key otherwise =
     (if js_gt (read_prop a key) (read_prop b key) then
        (if js_gt (read_prop sortSpec key) (Num 0) then 1 else - 1)
      else if js_lt (read_prop a key) (read_prop b key) then
        (if js_lt (read_prop sortSpec key) (Num 0) then 1 else - 1)
      else otherwise)"

fun compare_keys :: "obj \<Rightarrow> obj \<Rightarrow> obj \<Rightarrow> string list \<Rightarrow> int" where
  "compare_keys a b sortSpec [] = compare_at a b sortSpec ''undefined'' 0"
| "compare_keys a b sortSpec (key # keys) =
     compare_at a b sortSpec key (compare_keys a b sortSpec keys)"

text \<open>
  \<open>Array.prototype.sort\<close> with a comparator. The language fixes its result for a
  consistent comparator only: the stable arrangement in which \<open>a\<close> stays before \<open>b\<close>
  unless the comparator is positive on them; on any other comparator the order is the
  host's own. \<open>find\<close> is therefore modelled with the sort of the host as a parameter, and
  \<open>js_sort\<close>, a stable insertion sort, is the sort of a conforming host on the
  comparators that are consistent on the elements sorted (\<open>consistent_on\<close>).
\<close>

fun insert_sorted :: "('a \<Rightarrow> 'a \<Rightarrow> int) \<Rightarrow> 'a \<Rightarrow> 'a list \<Rightarrow> 'a list" where
  "insert_sorted cmp x [] = [x]"
| "insert_sorted cmp x (y # ys) =
     (if cmp x y \<le> 0 then x # y # ys else y # insert_sorted cmp x ys)"

definition js_sort :: "('a \<Rightarrow> 'a \<Rightarrow> int) \<Rightarrow> 'a list \<Rightarrow> 'a list" where
  "js_sort cmp xs = foldr (insert_sorted cmp) xs []"

definition consistent_on :: "('a \<Rightarrow> 'a \<Rightarrow> int) \<Rightarrow> 'a list \<Rightarrow> bool" where
  "consistent_on cmp xs =
     ((\<forall>a \<in> set xs. cmp a a = 0) \<and>
      (\<forall>a \<in> set xs. \<forall>b \<in> set xs. (cmp a b < 0) = (cmp b a > 0)) \<and>
      (\<forall>a \<in> set xs. \<forall>b \<in> set xs. \<forall>c \<in> set xs.
         cmp a b \<le> 0 \<and> cmp b c \<le> 0 \<longrightarrow> cmp a c \<le> 0))"

text \<open>
  \<open>Array.prototype.splice(start, deleteCount)\<close> (here \<open>js_splice\<close>): the removed
  elements, which is what the query pipeline keeps; \<open>None\<close> is the call with one
  argument.
\<close>

definition js_splice :: "'a list \<Rightarrow> int \<Rightarrow> int option \<Rightarrow> 'a list" where
  "js_splice xs start deleteCount =
     (let len = int (length xs);
          actualStart = (if start < 0 then max (len + start) 0 else min start len);
          actualDeleteCount =
            (case deleteCount of
               None \<Rightarrow> len - actualStart
             | Some dc \<Rightarrow> min (max dc 0) (len - actualStart))
      in take (nat actualDeleteCount) (drop (nat actualStart) xs))"

section \<open>The collection\<close>

text \<open>
  Documents are objects with identity: the collection, the results of \<open>find\<close>, the
  pending changes and the caller all hold references to the same object, and \<open>insert\<close>
  and \<open>update\<close> write into it. A document is a reference into a heap of plain objects.

  \<open>timers\<close> are the timeouts the host has armed and not yet fired or cleared, and
  \<open>delivered\<close> records the calls made to the subscribers' callbacks, as (callback,
  watcher, payload). Callbacks are not modelled beyond being called: they are taken not
  to call back into the collection.
\<close>

type_synonym ref = nat

datatype operation = OpInsert | OpUpdate | OpRemove

record change =
  ch_collection :: string
  ch_id :: jsval
  operationType :: operation
  fullDocument :: "ref option"

record state =
  name :: string
  content :: "ref list"
  watchers :: "(nat \<times> nat) list"
  lastId :: nat
  changesToNotify :: "change list"
  notifyTimeout :: "nat option"
  heap :: "ref \<Rightarrow> obj"
  nextRef :: ref
  timers :: "nat list"
  nextTimer :: nat
  delivered :: "(nat \<times> nat \<times> change list) list"

text \<open>\<open>new ReactiveCollection(name)\<close> in a host whose heap is \<open>h\<close>, with free
  addresses from \<open>n\<close> on.\<close>

definition new_collection :: "string \<Rightarrow> (ref \<Rightarrow> obj) \<Rightarrow> ref \<Rightarrow> state" where
  "new_collection nm h n =
     \<lparr>name = nm, content = [], watchers = [], lastId = 0, changesToNotify = [],
      notifyTimeout = None, heap = h, nextRef = n, timers = [], nextTimer = 1,
      delivered = []\<rparr>"

text \<open>The outcome of a call: \<open>Inr\<close> is the value the promise resolves to, \<open>Inl e\<close> the
  error it is rejected with (or that the call throws), and \<open>Inl (Unsettled e)\<close> a
  promise that is never settled because \<open>e\<close> was raised where nothing handles it.\<close>

type_synonym 'a outcome = "(error + 'a) \<times> state"

text \<open>Assignment to and deletion of a property of a plain object.\<close>

fun set_prop :: "obj \<Rightarrow> string \<Rightarrow> jsval \<Rightarrow> obj" where
  "set_prop [] k v = [(k, v)]"
| "set_prop ((k', v') # d) k v = (if k' = k then (k, v) # d else (k', v') # set_prop d k v)"

definition delete_prop :: "obj \<Rightarrow> string \<Rightarrow> obj" where
  "delete_prop d k = filter (\<lambda>kv. fst kv \<noteq> k) d"

text \<open>\<open>el._id\<close> of the document at \<open>r\<close>.\<close>

definition doc_id :: "state \<Rightarrow> ref \<Rightarrow> jsval" where
  "doc_id s r = read_prop (heap s r) ''_id''"

subsection \<open>Subscriptions\<close>

text \<open>\<open>Map.prototype.set\<close> keeps the position of a key that is already there.\<close>

fun map_set :: "('k \<times> 'v) list \<Rightarrow> 'k \<Rightarrow> 'v \<Rightarrow> ('k \<times> 'v) list" where
  "map_set [] k v = [(k, v)]"
| "map_set ((k', v') # m) k v = (if k' = k then (k, v) # m else (k', v') # map_set m k v)"

text \<open>A missing (falsy) watcher or callback is \<open>None\<close>.\<close>

definition subscribe :: "nat option \<Rightarrow> nat option \<Rightarrow> state \<Rightarrow> error + state" where
  "subscribe watcher callback s =
     (case (watcher, callback) of
        (Some w, Some cb) \<Rightarrow> Inr (s\<lparr>watchers := map_set (watchers s) w cb\<rparr>)
      | _ \<Rightarrow> Inl (SubscriptionError ''No watcher or callback has been specified''))"

definition unsubscribe :: "nat option \<Rightarrow> state \<Rightarrow> error + state" where
  "unsubscribe watcher s =
     (case watcher of
        Some w \<Rightarrow>
          if w \<in> set (map fst (watchers s))
          then Inr (s\<lparr>watchers := filter (\<lambda>kv. fst kv \<noteq> w) (watchers s)\<rparr>)
          else Inl (SubscriptionError ''No watcher has been specified'')
      | None \<Rightarrow> Inl (SubscriptionError ''No watcher has been specified''))"


subsection \<open>Notification\<close>

text \<open>\<open>_objectId\<close>: the decimal text of the counter, which is then incremented.\<close>

definition objectId :: "state \<Rightarrow> string \<times> state" where
  "objectId s = (string_of_nat (lastId s), s\<lparr>lastId := lastId s + 1\<rparr>)"

definition clearTimeout :: "nat \<Rightarrow> state \<Rightarrow> state" where
  "clearTimeout h s = s\<lparr>timers := filter (\<lambda>t. t \<noteq> h) (timers s)\<rparr>"

definition setTimeout :: "state \<Rightarrow> nat \<times> state" where
  "setTimeout s = (nextTimer s, s\<lparr>timers := timers s @ [nextTimer s], nextTimer := nextTimer s + 1\<rparr>)"

text \<open>The Change built for one id: with the stored document of that id if there is one.\<close>

definition change_for :: "state \<Rightarrow> operation \<Rightarrow> jsval \<Rightarrow> change" where
  "change_for s op current =
     \<lparr>ch_collection = name s, ch_id = current, operationType = op,
      fullDocument = find (\<lambda>el. strict_eq (doc_id s el) current) (content s)\<rparr>"

text \<open>\<open>_notifyChangesForIds\<close>.\<close>

definition notifyChangesForIds :: "jsval list \<Rightarrow> operation \<Rightarrow> state \<Rightarrow> state" where
  "notifyChangesForIds ids op s =
     (let s1 = (case notifyTimeout s of
                  Some h \<Rightarrow> (clearTimeout h s)\<lparr>notifyTimeout := None\<rparr>
                | None \<Rightarrow> s);
          data = map (change_for s1 op) ids;
          s2 = s1\<lparr>changesToNotify :=
                 filter (\<lambda>el. findIndex (\<lambda>i. strict_eq i (ch_id el)) ids < 0) (changesToNotify s1)
                 @ data\<rparr>;
          (h, s3) = setTimeout s2
      in s3\<lparr>notifyTimeout := Some h\<rparr>)"

text \<open>
  The callback of the timeout: every watcher's callback is called, in the order of the
  map, with the pending changes, which are then emptied. \<open>fire h\<close> is the host running
  the timeout \<open>h\<close>; a timeout that was cleared or has fired does nothing.
\<close>

definition flush :: "state \<Rightarrow> state" where
  "flush s =
     s\<lparr>delivered := delivered s @ map (\<lambda>(w, cb). (cb, w, changesToNotify s)) (watchers s),
       changesToNotify := []\<rparr>"

definition fire :: "nat \<Rightarrow> state \<Rightarrow> state" where
  "fire h s = (if h \<in> set (timers s) then flush (clearTimeout h s) else s)"

subsection \<open>Insertion\<close>

text \<open>
  The argument of the \<open>insert\<close> family: a value whose \<open>typeof\<close> is not \<open>object\<close>, one
  document, or an array of documents.
\<close>

datatype data = NotAnObject | Document ref | Documents "ref list"

text \<open>The \<open>forEach\<close> of \<open>insert\<close>, which carries \<open>badId\<close>.\<close>

fun insert_each :: "ref list \<Rightarrow> jsval \<Rightarrow> state \<Rightarrow> jsval \<times> state" where
  "insert_each [] badId s = (badId, s)"
| "insert_each (r # rs) badId s =
     (if strict_eq (doc_id s r) Undefined then
        (let (i, s1) = objectId s in
         insert_each rs badId (s1\<lparr>heap := (heap s1)(r := set_prop (heap s1 r) ''_id'' (Str i))\<rparr>))
      else if findIndex (\<lambda>el. strict_eq (doc_id s r) (doc_id s el)) (content s) \<ge> 0 then
        insert_each rs (doc_id s r) s
      else insert_each rs badId s)"

text \<open>
  \<open>insert\<close> (here \<open>insert_docs\<close>): the type check, then, on the array of documents
  (\<open>insert_batch\<close>), the loop, the rejection if \<open>badId\<close> was set, the append to the
  store and the notification.
\<close>

definition insert_batch :: "ref list \<Rightarrow> state \<Rightarrow> unit outcome" where
  "insert_batch rs s =
     (let (badId, s1) = insert_each rs Null s in
      if \<not> strict_eq badId Null then (Inl (DuplicateIdError badId), s1)
      else
        (let s2 = s1\<lparr>content := content s1 @ rs\<rparr> in
         (Inr (), notifyChangesForIds (map (doc_id s2) rs) OpInsert s2)))"

definition insert_docs :: "data \<Rightarrow> state \<Rightarrow> unit outcome" where
  "insert_docs d s =
     (case d of
        NotAnObject \<Rightarrow> (Inl (InvalidArgument ''data is not of type object or array''), s)
      | Document r \<Rightarrow> insert_batch [r] s
      | Documents rs \<Rightarrow> insert_batch rs s)"

definition insertOne :: "data \<Rightarrow> state \<Rightarrow> unit outcome" where
  "insertOne d s =
     (case d of
        NotAnObject \<Rightarrow> (Inl (InvalidArgument ''data is not of type object''), s)
      | Documents rs \<Rightarrow> (Inl (InvalidArgument ''data cannot be an array''), s)
      | Document r \<Rightarrow> insert_docs d s)"

definition insertMany :: "data \<Rightarrow> state \<Rightarrow> unit outcome" where
  "insertMany d s =
     (case d of
        Documents rs \<Rightarrow> insert_docs d s
      | _ \<Rightarrow> (Inl (InvalidArgument ''data must be an array''), s))"

subsection \<open>Queries\<close>

text \<open>
  The options object: \<open>None\<close> is a field that is undefined. \<open>sort_opt\<close> is the field
  \<open>sort\<close>, \<open>skip\<close> and \<open>limit\<close> are integers, \<open>upsert\<close> and \<open>justOne\<close> are read for
  their truth value only.
\<close>

record options =
  sort_opt :: "obj option"
  skip :: "int option"
  limit :: "int option"
  upsert :: bool
  justOne :: bool

definition no_options :: options where
  "no_options = \<lparr>sort_opt = None, skip = None, limit = None, upsert = False, justOne = False\<rparr>"

text \<open>\<open>Array.prototype.filter\<close> with a callback that may throw.\<close>

fun filter_content :: "('a \<Rightarrow> error + bool) \<Rightarrow> 'a list \<Rightarrow> error + 'a list" where
  "filter_content p [] = Inr []"
| "filter_content p (x # xs) =
     (case p x of
        Inl e \<Rightarrow> Inl e
      | Inr b \<Rightarrow>
          (case filter_content p xs of
             Inl e \<Rightarrow> Inl e
           | Inr ys \<Rightarrow> Inr (if b then x # ys else ys)))"

text \<open>The stages of \<open>find\<close> after the filter.\<close>

type_synonym hostsort = "(ref \<Rightarrow> ref \<Rightarrow> int) \<Rightarrow> ref list \<Rightarrow> ref list"

definition sort_stage_with :: "hostsort \<Rightarrow> state \<Rightarrow> options \<Rightarrow> ref list \<Rightarrow> ref list" where
  "sort_stage_with hostSort s opts results =
     (case sort_opt opts of
        None \<Rightarrow> results
      | Some sortSpec \<Rightarrow>
          (let keys = map fst sortSpec in
           if length keys = 0 then results
           else hostSort (\<lambda>a b. orderByManyProperties (heap s a) (heap s b) sortSpec keys 0)
                  results))"

definition sort_stage :: "state \<Rightarrow> options \<Rightarrow> ref list \<Rightarrow> ref list" where
  "sort_stage s opts results = sort_stage_with js_sort s opts results"

definition skip_stage :: "options \<Rightarrow> 'a list \<Rightarrow> 'a list" where
  "skip_stage opts results =
     (case skip opts of
        Some n \<Rightarrow> if n > 0 then js_splice results n None else results
      | None \<Rightarrow> results)"

definition limit_stage :: "options \<Rightarrow> 'a list \<Rightarrow> 'a list" where
  "limit_stage opts results =
     (case limit opts of
        Some n \<Rightarrow> if n > 0 then js_splice results 0 (Some n) else results
      | None \<Rightarrow> results)"

text \<open>
  The projected copy of a document. An object lists integer-like keys first, in
  ascending order, and an assignment to \<open>__proto__\<close> sets no own property; the copy is
  modelled for projections whose keys are \<open>ordinary_key\<close>s, neither of the two.
\<close>

definition ordinary_key :: "string \<Rightarrow> bool" where
  "ordinary_key k = (k \<noteq> ''__proto__'' \<and>
     \<not> (k \<noteq> [] \<and> list_all is_digit k \<and> (k = ''0'' \<or> hd k \<noteq> CHR ''0'')))"

definition project :: "obj \<Rightarrow> obj \<Rightarrow> obj" where
  "project projection el =
     (let final = foldl (\<lambda>final current.
                    if truthy (read_prop projection current)
                    then set_prop final current (read_prop el current) else final)
                  [] (map fst projection);
          retVal = foldl (\<lambda>d kv. set_prop d (fst kv) (snd kv)) [(''_id'', read_prop el ''_id'')] final
      in if ''_id'' \<in> set (map fst projection) \<and> \<not> truthy (read_prop projection ''_id'')
         then delete_prop retVal ''_id'' else retVal)"

text \<open>
  What \<open>find\<close> resolves to: the stored documents themselves, or their projected copies.
\<close>

datatype found = Stored ref | View obj

definition project_stage :: "state \<Rightarrow> obj option \<Rightarrow> ref list \<Rightarrow> found list" where
  "project_stage s projection results =
     (case projection of
        Some p \<Rightarrow> map (\<lambda>el. View (project p (heap s el))) results
      | None \<Rightarrow> map Stored results)"

text \<open>
  \<open>find\<close> (here \<open>find_with\<close>, with the sort of the host as its first argument): the
  type check of the query, the filter of the store with the matcher (which may throw),
  then the sort, the skip, the limit and the projection. \<open>find_docs\<close> is \<open>find\<close> on a
  host whose sort is \<open>js_sort\<close>.
\<close>

definition find_with ::
  "hostsort \<Rightarrow> jsval \<Rightarrow> obj option \<Rightarrow> options \<Rightarrow> state \<Rightarrow> error + found list" where
  "find_with hostSort query projection opts s =
     (if \<not> typeof_object query \<and> \<not> is_array query
      then Inl (InvalidArgument ''query must be an object'')
      else
        (case filter_content (\<lambda>el. elementIsValidForQuery (Obj (heap s el)) query) (content s) of
           Inl e \<Rightarrow> Inl e
         | Inr results \<Rightarrow>
             Inr (project_stage s projection
                    (limit_stage opts (skip_stage opts (sort_stage_with hostSort s opts results))))))"

definition find_docs :: "jsval \<Rightarrow> obj option \<Rightarrow> options \<Rightarrow> state \<Rightarrow> error + found list" where
  "find_docs query projection opts s = find_with js_sort query projection opts s"

text \<open>The documents among the results of a \<open>find\<close> without projection.\<close>

fun stored :: "found list \<Rightarrow> ref list" where
  "stored [] = []"
| "stored (Stored r # fs) = r # stored fs"
| "stored (View d # fs) = stored fs"

definition findOne :: "jsval \<Rightarrow> obj option \<Rightarrow> options \<Rightarrow> state \<Rightarrow> error + found option" where
  "findOne query projection opts s =
     (case find_docs query projection (opts\<lparr>limit := Some 1\<rparr>) s of
        Inl e \<Rightarrow> Inl e
      | Inr results \<Rightarrow> Inr (case results of [] \<Rightarrow> None | x # xs \<Rightarrow> Some x))"

subsection \<open>Update\<close>

text \<open>
  The patch-application collaborator \<open>modify(doc, patch)\<close> of the external package is a
  parameter: a function from the document and the patch to the new document, or to the
  error it throws. Its result is taken to be a new object, not one the collection or
  the caller already holds.
\<close>

type_synonym modifier = "jsval \<Rightarrow> jsval \<Rightarrow> error + jsval"

text \<open>
  The body of the \<open>forEach\<close> of \<open>update\<close> for one result: the old properties but \<open>_id\<close>
  are deleted, then the properties of \<open>modified\<close> but \<open>_id\<close> are assigned.
\<close>

definition clear_fields :: "obj \<Rightarrow> obj" where
  "clear_fields d = foldl (\<lambda>d key. if key \<noteq> ''_id'' then delete_prop d key else d) d (map fst d)"

definition assign_fields :: "obj \<Rightarrow> obj \<Rightarrow> obj" where
  "assign_fields d modified =
     foldl (\<lambda>d kv. if fst kv \<noteq> ''_id'' then set_prop d (fst kv) (snd kv) else d) d modified"

fun update_each :: "modifier \<Rightarrow> jsval \<Rightarrow> ref list \<Rightarrow> state \<Rightarrow> error option \<times> state" where
  "update_each modify replace [] s = (None, s)"
| "update_each modify replace (r # rs) s =
     (case modify (Obj (heap s r)) replace of
        Inl e \<Rightarrow> (Some e, s)
      | Inr modified \<Rightarrow>
          (let s1 = s\<lparr>heap := (heap s)(r := clear_fields (heap s r))\<rparr> in
           case entries modified of
             Inl e \<Rightarrow> (Some e, s1)
           | Inr kvs \<Rightarrow>
               update_each modify replace rs
                 (s1\<lparr>heap := (heap s1)(r := assign_fields (heap s1 r) kvs)\<rparr>)))"

text \<open>\<open>insertOne\<close> applied to a value that was just computed.\<close>

definition insertOne_value :: "jsval \<Rightarrow> state \<Rightarrow> unit outcome" where
  "insertOne_value v s =
     (case v of
        Obj kvs \<Rightarrow>
          insertOne (Document (nextRef s))
            (s\<lparr>heap := (heap s)(nextRef s := kvs), nextRef := nextRef s + 1\<rparr>)
      | Arr xs \<Rightarrow> (Inl (InvalidArgument ''data cannot be an array''), s)
      | Null \<Rightarrow> (Inl TypeError, s)
      | _ \<Rightarrow>
          if typeof_object v then (Inl TypeError, s)
          else (Inl (InvalidArgument ''data is not of type object''), s))"

text \<open>
  \<open>update\<close>. An error raised inside the \<open>then\<close> callback, and a rejection of \<open>find\<close>
  or of \<open>insertOne\<close>, reach no handler: the promise of \<open>update\<close> is never settled. An
  error thrown by the matcher leaves \<open>find\<close> before its promise exists and rejects the
  promise of \<open>update\<close>.
\<close>

definition update :: "modifier \<Rightarrow> jsval \<Rightarrow> jsval \<Rightarrow> options \<Rightarrow> state \<Rightarrow> unit outcome" where
  "update modify query replace opts s =
     (if \<not> typeof_object replace \<and> \<not> is_array replace
      then (Inl (InvalidArgument ''query must be an object''), s)
      else
        (case find_docs query None opts s of
           Inl (InvalidArgument m) \<Rightarrow> (Inl (Unsettled (InvalidArgument m)), s)
         | Inl e \<Rightarrow> (Inl e, s)
         | Inr found \<Rightarrow>
             let results = stored found in
             if length results = 0 then
               (if upsert opts then
                  (case modify query replace of
                     Inl e \<Rightarrow> (Inl (Unsettled e), s)
                   | Inr v \<Rightarrow>
                       (case insertOne_value v s of
                          (Inl e, s1) \<Rightarrow> (Inl (Unsettled e), s1)
                        | (Inr u, s1) \<Rightarrow> (Inr (), s1)))
                else (Inr (), s))
             else
               (case update_each modify replace results s of
                  (Some e, s1) \<Rightarrow> (Inl (Unsettled e), s1)
                | (None, s1) \<Rightarrow>
                    (Inr (), notifyChangesForIds (map (doc_id s1) results) OpUpdate s1))))"

definition updateOne :: "modifier \<Rightarrow> jsval \<Rightarrow> jsval \<Rightarrow> options \<Rightarrow> state \<Rightarrow> unit outcome" where
  "updateOne modify query replace opts s = update modify query replace (opts\<lparr>limit := Some 1\<rparr>) s"

definition updateMany :: "modifier \<Rightarrow> jsval \<Rightarrow> jsval \<Rightarrow> options \<Rightarrow> state \<Rightarrow> unit outcome" where
  "updateMany modify query replace opts s = update modify query replace opts s"

subsection \<open>Removal\<close>

text \<open>\<open>this._content.splice(index, 1)\<close>.\<close>

definition remove_at :: "'a list \<Rightarrow> nat \<Rightarrow> 'a list" where
  "remove_at xs i = take i xs @ drop (Suc i) xs"

text \<open>The \<open>forEach\<close> of \<open>remove\<close>, which collects the removed ids.\<close>

fun remove_each :: "ref list \<Rightarrow> jsval list \<Rightarrow> state \<Rightarrow> jsval list \<times> state" where
  "remove_each [] ids s = (ids, s)"
| "remove_each (r # rs) ids s =
     (let index = findIndex (\<lambda>el. strict_eq (doc_id s el) (doc_id s r)) (content s) in
      if index \<ge> 0 then
        remove_each rs (ids @ [doc_id s r]) (s\<lparr>content := remove_at (content s) (nat index)\<rparr>)
      else remove_each rs ids s)"

definition remove :: "jsval \<Rightarrow> options \<Rightarrow> state \<Rightarrow> unit outcome" where
  "remove query opts s =
     (case find_docs query None
             (if justOne opts then no_options\<lparr>limit := Some 1\<rparr> else no_options) s of
        Inl e \<Rightarrow> (Inl e, s)
      | Inr found \<Rightarrow>
          (let (ids, s1) = remove_each (stored found) [] s in
           (Inr (), notifyChangesForIds ids OpRemove s1)))"

section \<open>Invariants and example inputs\<close>



text \<open>
  A heap with the objects \<open>{_id: '0', num: 1}\<close>, \<open>{_id: '0', num: 5}\<close> and \<open>{num: 2}\<close>,
  and the collection after \<open>insert({_id: '0', num: 1})\<close>.
\<close>

definition ex_heap :: "ref \<Rightarrow> obj" where
  "ex_heap = (\<lambda>r. [])
     (0 := [(''_id'', Str ''0''), (''num'', Num 1)],
      1 := [(''_id'', Str ''0''), (''num'', Num 5)],
      2 := [(''num'', Num 2)])"

definition ex_one :: state where
  "ex_one = snd (insert_docs (Document 0) (new_collection ''test-collection'' ex_heap 3))"



text \<open>
  The collection of the repository's tests: \<open>insertMany\<close> of \<open>{num: 1}\<close>, \<open>{num: 2}\<close>,
  \<open>{num: 3}\<close> and \<open>{num: 4}\<close> into a new collection; and that collection once a
  watcher 7 has subscribed with the callback 8 and the timeout has fired.
\<close>

definition test_heap :: "ref \<Rightarrow> obj" where
  "test_heap = (\<lambda>r. if r < 4 then [(''num'', Num (int r + 1))] else [])"

definition ex_four :: state where
  "ex_four = snd (insertMany (Documents [0, 1, 2, 3]) (new_collection ''test-collection'' test_heap 4))"

definition ex_idle :: state where
  "ex_idle = fire 1 (case subscribe (Some 7) (Some 8) ex_four of Inr s \<Rightarrow> s | Inl e \<Rightarrow> ex_four)"

text \<open>The values that \<open>===\<close> compares by value.\<close>

fun primitive :: "jsval \<Rightarrow> bool" where
  "primitive (Arr xs) = False"
| "primitive (Obj kvs) = False"
| "primitive v = True"

text \<open>
  The collaborator on a patch that carries no update operator: the patch is the new
  document.
\<close>

definition modify_replace :: modifier where
  "modify_replace doc patch = Inr patch"

section \<open>Properties of the matcher\<close>

lemma some_step_simps:
  "some_step (Inl e) r = Inl e"
  "some_step (Inr b) r = (if b then Inr True else r)"
  by (simp_all add: some_step_def)

lemma negate_simps:
  "negate (Inl e) = Inl e"
  "negate (Inr b) = Inr (\<not> b)"
  by (simp_all add: negate_def)

lemma get_prop_Obj: "get_prop (Obj d) k = Inr (read_prop d k)"
  by (simp add: get_prop_def read_prop_def split: option.splits)

lemma strict_eq_Undefined: "strict_eq v Undefined = (v = Undefined)"
  by (cases v) simp_all


lemma strict_eq_primitive_left: "primitive a \<Longrightarrow> strict_eq a b = (a = b)"
  by (cases a; cases b) auto

lemma read_prop_absent:
  "k \<notin> set (map fst d) \<Longrightarrow>
   read_prop d k = (if k \<in> set object_prototype_names then Builtin k else Undefined)"
  by (simp add: read_prop_def map_of_eq_None_iff[symmetric] del: map_of_eq_None_iff
      split: option.splits)

text \<open>
  What the operator \<open>$exists\<close> decides. The presence check comes first and rejects a
  document without the field whatever the operand is, so \<open>{f: {$exists: false}}\<close> is
  matched only by a document that owns \<open>f\<close> with the value undefined.
\<close>

lemma exists_true_matches:
  "elementIsValidForQuery (Obj d) (Obj [(f, Obj [(''$exists'', Bool True)])]) =
   Inr (f \<in> set (map fst d) \<and> read_prop d f \<noteq> Undefined)"
  by (simp add: elementIsValidForQuery.simps get_prop_Obj operatorDoNotMatch_def
      some_step_simps negate_simps strict_eq_Undefined)

lemma exists_false_matches:
  "elementIsValidForQuery (Obj d) (Obj [(f, Obj [(''$exists'', Bool False)])]) =
   Inr (f \<in> set (map fst d) \<and> read_prop d f = Undefined)"
  by (simp add: elementIsValidForQuery.simps get_prop_Obj operatorDoNotMatch_def
      some_step_simps negate_simps strict_eq_Undefined)

text \<open>
  Claim C3. The query \<open>{f: {$exists: true}}\<close> should match exactly the documents in
  which \<open>f\<close> is present and \<open>{f: {$exists: false}}\<close> exactly those in which it is
  absent. The matcher returns false for the document \<open>{foo: 'a'}\<close> and the query
  \<open>{bar: {$exists: false}}\<close>, although \<open>bar\<close> is absent.
\<close>

theorem exists_false_rejects_absent_field:
  "elementIsValidForQuery (Obj [(''foo'', Str ''a'')])
     (Obj [(''bar'', Obj [(''$exists'', Bool False)])]) = Inr False"
  by (simp add: elementIsValidForQuery.simps get_prop_Obj operatorDoNotMatch_def
      some_step_simps negate_simps)

text \<open>
  Claim C8, as stated: a document that lacks \<open>f\<close> matches the query \<open>{f: null}\<close>.
  The document \<open>{foo: 'a'}\<close> does not match \<open>{bar: null}\<close>.
\<close>

theorem null_subquery_rejects_absent_field:
  "elementIsValidForQuery (Obj [(''foo'', Str ''a'')]) (Obj [(''bar'', Null)]) \<noteq> Inr True"
  by (simp add: elementIsValidForQuery.simps get_prop_Obj some_step_simps negate_simps
      read_prop_def object_prototype_names_def)

text \<open>
  Claim C8, amended. A falsy sub-query at a field \<open>f\<close> passes the presence check and is
  decided by strict equality between the value read at \<open>f\<close> (undefined when no
  property of that name is found) and the sub-query. So a document that lacks \<open>f\<close>
  does not match \<open>{f: null}\<close>; it matches \<open>{f: undefined}\<close>, unless \<open>f\<close> names a
  member of \<open>Object.prototype\<close>.
\<close>

theorem falsy_subquery_strict_equality:
  assumes "\<not> truthy q"
  shows "elementIsValidForQuery (Obj d) (Obj [(f, q)]) = Inr (strict_eq (read_prop d f) q) \<and>
         (f \<notin> set (map fst d) \<longrightarrow>
            elementIsValidForQuery (Obj d) (Obj [(f, Null)]) = Inr False \<and>
            (f \<notin> set object_prototype_names \<longrightarrow>
               elementIsValidForQuery (Obj d) (Obj [(f, Undefined)]) = Inr True))"
  using assms
  by (simp add: elementIsValidForQuery.simps get_prop_Obj some_step_simps negate_simps
      read_prop_absent)

theorem falsy_subquery_strict_equality_witness:
  "elementIsValidForQuery (Obj [(''foo'', Str ''a'')]) (Obj [(''bar'', Null)]) = Inr False \<and>
   elementIsValidForQuery (Obj [(''foo'', Str ''a'')]) (Obj [(''bar'', Undefined)]) = Inr True"
proof -
  have h: "\<not> truthy Null" by simp
  have a: "''bar'' \<notin> set (map fst [(''foo'', Str ''a'')])" by simp
  have p: "''bar'' \<notin> set object_prototype_names" by (simp add: object_prototype_names_def)
  from falsy_subquery_strict_equality [OF h, of "[(''foo'', Str ''a'')]" "''bar''"] a p h
  show ?thesis by blast
qed

section \<open>Properties of insertion\<close>

lemma findIndex_ge_minus1: "findIndex p xs \<ge> - 1"
  by (induction xs) (auto simp: Let_def)

lemma findIndex_nonneg: "(findIndex p xs \<ge> 0) = (\<exists>x \<in> set xs. p x)"
  using findIndex_ge_minus1 [of p]
  by (induction xs) (auto simp: Let_def)

lemma findIndex_neg: "(findIndex p xs < 0) = (\<not> (\<exists>x \<in> set xs. p x))"
  using findIndex_nonneg [of p xs] by auto














text \<open>
  Claim C1. After a successful insert no two stored documents should share an \<open>_id\<close>.
  On a new collection \<open>insert({_id: '0', num: 1})\<close> followed by \<open>insert({num: 2})\<close>
  succeeds and stores two documents with the \<open>_id\<close> \<open>'0'\<close>: the counter is not
  compared with the ids the callers supplied.
\<close>

theorem insert_allows_duplicate_ids:
  "fst (insert_docs (Document 2) ex_one) = Inr () \<and>
   map (doc_id (snd (insert_docs (Document 2) ex_one))) (content (snd (insert_docs (Document 2) ex_one)))
     = [Str ''0'', Str ''0'']"
  by code_simp


section \<open>Properties of the query pipeline\<close>

lemma filter_content_Inr:
  "filter_content p xs = Inr ys \<Longrightarrow> ys = filter (\<lambda>x. p x = Inr True) xs"
  by (induction xs arbitrary: ys) (auto split: sum.splits if_splits)

lemma filter_content_total:
  "\<forall>x \<in> set xs. \<exists>b. p x = Inr b \<Longrightarrow>
   filter_content p xs = Inr (filter (\<lambda>x. p x = Inr True) xs)"
  by (induction xs) (auto split: sum.splits)

lemma splice_skip: "0 < n \<Longrightarrow> js_splice xs n None = drop (nat n) xs"
  by (auto simp: js_splice_def Let_def min_def)

lemma splice_limit: "0 < n \<Longrightarrow> js_splice xs 0 (Some n) = take (nat n) xs"
  by (auto simp: js_splice_def Let_def min_def max_def)

text \<open>The comparator decides by the keys of the sort spec in their order.\<close>

lemma orderByManyProperties_keys:
  "keyIndex \<le> length keys \<Longrightarrow>
   orderByManyProperties a b sortSpec keys keyIndex = compare_keys a b sortSpec (drop keyIndex keys)"
proof (induction a b sortSpec keys keyIndex rule: orderByManyProperties.induct)
  case (1 a b sortSpec keys keyIndex)
  show ?case
  proof (cases "keyIndex < length keys")
    case True
    let ?k = "keys ! keyIndex"
    from True have d: "drop keyIndex keys = ?k # drop (keyIndex + 1) keys"
      by (simp add: Cons_nth_drop_Suc)
    have u: "orderByManyProperties a b sortSpec keys keyIndex =
          compare_at a b sortSpec ?k (orderByManyProperties a b sortSpec keys (keyIndex + 1))"
      using True by (subst orderByManyProperties.simps) (simp add: compare_at_def Let_def)
    show ?thesis
    proof (cases "js_gt (read_prop a ?k) (read_prop b ?k) \<or> js_lt (read_prop a ?k) (read_prop b ?k)")
      case decided: True
      then show ?thesis unfolding u d by (auto simp: compare_at_def)
    next
      case undecided: False
      with "1.IH" [of ?k] True
      have "orderByManyProperties a b sortSpec keys (keyIndex + 1) =
            compare_keys a b sortSpec (drop (keyIndex + 1) keys)"
        by simp
      then show ?thesis unfolding u d by simp
    qed
  next
    case False
    with "1.prems" have e: "keyIndex = length keys" by simp
    then show ?thesis
      by (subst orderByManyProperties.simps) (simp add: compare_at_def Let_def)
  qed
qed

lemma orderByManyProperties_from_start:
  "orderByManyProperties a b sortSpec keys 0 = compare_keys a b sortSpec keys"
  using orderByManyProperties_keys [of 0 keys a b sortSpec] by simp

text \<open>
  \<open>js_sort\<close> returns a permutation of its argument; when the comparator is consistent on
  the argument, the result is ordered by the comparator and elements that compare equal
  keep their order.
\<close>

lemma count_insert_sorted: "count_list (insert_sorted cmp x ys) z = count_list (x # ys) z"
  by (induction ys) auto

lemma count_js_sort: "count_list (js_sort cmp xs) z = count_list xs z"
proof (induction xs)
  case Nil
  then show ?case by (simp add: js_sort_def)
next
  case (Cons x xs)
  have "js_sort cmp (x # xs) = insert_sorted cmp x (js_sort cmp xs)" by (simp add: js_sort_def)
  with Cons show ?case by (simp add: count_insert_sorted)
qed

lemma insert_sorted_set: "set (insert_sorted cmp x ys) = Set.insert x (set ys)"
  by (induction ys) auto

lemma js_sort_set: "set (js_sort cmp xs) = set xs"
proof (induction xs)
  case Nil
  then show ?case by (simp add: js_sort_def)
next
  case (Cons x xs)
  have "js_sort cmp (x # xs) = insert_sorted cmp x (js_sort cmp xs)" by (simp add: js_sort_def)
  with Cons show ?case by (simp add: insert_sorted_set)
qed

lemma consistent_on_subset: "consistent_on cmp xs \<Longrightarrow> set ys \<subseteq> set xs \<Longrightarrow> consistent_on cmp ys"
  unfolding consistent_on_def by (meson subsetD)

lemma sorted_insert_sorted:
  assumes "consistent_on cmp (x # ys)" and "sorted_wrt (\<lambda>a b. cmp a b \<le> 0) ys"
  shows "sorted_wrt (\<lambda>a b. cmp a b \<le> 0) (insert_sorted cmp x ys)"
  using assms
proof (induction ys)
  case Nil
  then show ?case by simp
next
  case (Cons y ys)
  from Cons.prems(1) have c: "consistent_on cmp (x # ys)"
    by (rule consistent_on_subset) auto
  from Cons.prems(1) have tr: "\<And>a b c. a \<in> set (x # y # ys) \<Longrightarrow> b \<in> set (x # y # ys) \<Longrightarrow>
      c \<in> set (x # y # ys) \<Longrightarrow> cmp a b \<le> 0 \<Longrightarrow> cmp b c \<le> 0 \<Longrightarrow> cmp a c \<le> 0"
    unfolding consistent_on_def by blast
  from Cons.prems(1) have an: "\<And>a b. a \<in> set (x # y # ys) \<Longrightarrow> b \<in> set (x # y # ys) \<Longrightarrow>
      (cmp a b < 0) = (cmp b a > 0)"
    unfolding consistent_on_def by blast
  show ?case
  proof (cases "cmp x y \<le> 0")
    case True
    have "cmp x z \<le> 0" if "z \<in> set ys" for z
    proof -
      from Cons.prems(2) that have "cmp y z \<le> 0" by simp
      with True tr [of x y z] that show ?thesis by simp
    qed
    with True Cons.prems(2) show ?thesis by simp
  next
    case False
    then have "cmp y x < 0" using an [of y x] by simp
    then have yx: "cmp y x \<le> 0" by simp
    from Cons.prems(2) have s: "sorted_wrt (\<lambda>a b. cmp a b \<le> 0) ys" by simp
    from Cons.IH [OF c s] Cons.prems(2) yx False show ?thesis
      by (auto simp: insert_sorted_set)
  qed
qed

lemma sorted_js_sort:
  "consistent_on cmp xs \<Longrightarrow> sorted_wrt (\<lambda>a b. cmp a b \<le> 0) (js_sort cmp xs)"
proof (induction xs)
  case Nil
  then show ?case by (simp add: js_sort_def)
next
  case (Cons x xs)
  have u: "js_sort cmp (x # xs) = insert_sorted cmp x (js_sort cmp xs)" by (simp add: js_sort_def)
  from Cons.prems have c: "consistent_on cmp xs" by (rule consistent_on_subset) auto
  from Cons.prems have c2: "consistent_on cmp (x # js_sort cmp xs)"
    by (rule consistent_on_subset) (simp add: js_sort_set)
  from sorted_insert_sorted [OF c2 Cons.IH [OF c]] show ?case by (simp add: u)
qed

lemma stable_insert_sorted:
  assumes "consistent_on cmp (a # x # ys)"
  shows "filter (\<lambda>b. cmp a b = 0) (insert_sorted cmp x ys) = filter (\<lambda>b. cmp a b = 0) (x # ys)"
  using assms
proof (induction ys)
  case Nil
  then show ?case by simp
next
  case (Cons y ys)
  from Cons.prems have c: "consistent_on cmp (a # x # ys)"
    by (rule consistent_on_subset) auto
  from Cons.prems have tr: "\<And>p q r. p \<in> set (a # x # y # ys) \<Longrightarrow> q \<in> set (a # x # y # ys) \<Longrightarrow>
      r \<in> set (a # x # y # ys) \<Longrightarrow> cmp p q \<le> 0 \<Longrightarrow> cmp q r \<le> 0 \<Longrightarrow> cmp p r \<le> 0"
    unfolding consistent_on_def by blast
  from Cons.prems have an: "\<And>p q. p \<in> set (a # x # y # ys) \<Longrightarrow> q \<in> set (a # x # y # ys) \<Longrightarrow>
      (cmp p q < 0) = (cmp q p > 0)"
    unfolding consistent_on_def by blast
  show ?case
  proof (cases "cmp x y \<le> 0")
    case True
    then show ?thesis by simp
  next
    case False
    have "\<not> (cmp a x = 0 \<and> cmp a y = 0)"
    proof
      assume e: "cmp a x = 0 \<and> cmp a y = 0"
      then have "\<not> cmp a x < 0" by simp
      with an [of a x] have "\<not> cmp x a > 0" by simp
      then have "cmp x a \<le> 0" by simp
      with tr [of x a y] e have "cmp x y \<le> 0" by simp
      with False show False by simp
    qed
    with Cons.IH [OF c] False show ?thesis by auto
  qed
qed

lemma stable_js_sort:
  "consistent_on cmp (a # xs) \<Longrightarrow>
   filter (\<lambda>b. cmp a b = 0) (js_sort cmp xs) = filter (\<lambda>b. cmp a b = 0) xs"
proof (induction xs)
  case Nil
  then show ?case by (simp add: js_sort_def)
next
  case (Cons x xs)
  have u: "js_sort cmp (x # xs) = insert_sorted cmp x (js_sort cmp xs)" by (simp add: js_sort_def)
  from Cons.prems have c: "consistent_on cmp (a # xs)" by (rule consistent_on_subset) auto
  from Cons.prems have c2: "consistent_on cmp (a # x # js_sort cmp xs)"
    by (rule consistent_on_subset) (auto simp: js_sort_set)
  from stable_insert_sorted [OF c2] Cons.IH [OF c] show ?case by (simp add: u)
qed

text \<open>
  Claim C5. For a query of type object on which the matcher does not throw and a
  projection with ordinary keys, \<open>find\<close>, on whatever sort the host has, returns the
  store filtered with the matcher; sorted by the host only when \<open>options.sort\<close> has a
  key, with the comparator that takes the keys of the sort spec in their order and
  decides by the first one on which the two documents differ; then without its first
  \<open>skip\<close> elements if \<open>skip > 0\<close>; then cut to its first \<open>limit\<close> elements if
  \<open>limit > 0\<close>; and projected last. \<open>find_docs\<close> is \<open>find\<close> on the sort \<open>js_sort\<close>,
  and whenever that comparator is consistent on the filtered sequence \<open>js_sort\<close>
  returns a permutation of it that is ordered by the comparator and keeps the stored
  order of the documents that compare equal.
\<close>

theorem find_stage_order:
  assumes "typeof_object query"
    and "\<forall>el \<in> set (content s). \<exists>b. elementIsValidForQuery (Obj (heap s el)) query = Inr b"
    and "\<forall>p. projection = Some p \<longrightarrow> list_all ordinary_key (map fst p)"
  shows "find_with hostSort query projection opts s =
     Inr (let filtered = filter (\<lambda>el. elementIsValidForQuery (Obj (heap s el)) query = Inr True)
                           (content s);
              sorted = (case sort_opt opts of
                          None \<Rightarrow> filtered
                        | Some sortSpec \<Rightarrow>
                            if sortSpec = [] then filtered
                            else hostSort (\<lambda>a b. compare_keys (heap s a) (heap s b)
                                               sortSpec (map fst sortSpec)) filtered);
              skipped = (case skip opts of
                           None \<Rightarrow> sorted
                         | Some n \<Rightarrow> if 0 < n then drop (nat n) sorted else sorted);
              limited = (case limit opts of
                           None \<Rightarrow> skipped
                         | Some n \<Rightarrow> if 0 < n then take (nat n) skipped else skipped)
          in case projection of
               None \<Rightarrow> map Stored limited
             | Some p \<Rightarrow> map (\<lambda>el. View (project p (heap s el))) limited) \<and>
     find_docs query projection opts s = find_with js_sort query projection opts s \<and>
     (\<forall>sortSpec.
        consistent_on (\<lambda>a b. compare_keys (heap s a) (heap s b) sortSpec (map fst sortSpec))
          (filter (\<lambda>el. elementIsValidForQuery (Obj (heap s el)) query = Inr True) (content s))
        \<longrightarrow>
        (let cmp = (\<lambda>a b. compare_keys (heap s a) (heap s b) sortSpec (map fst sortSpec));
             filtered = filter (\<lambda>el. elementIsValidForQuery (Obj (heap s el)) query = Inr True)
                          (content s);
             sorted = js_sort cmp filtered
         in (\<forall>el. count_list sorted el = count_list filtered el) \<and>
            sorted_wrt (\<lambda>a b. cmp a b \<le> 0) sorted \<and>
            (\<forall>a \<in> set filtered.
               filter (\<lambda>b. cmp a b = 0) sorted = filter (\<lambda>b. cmp a b = 0) filtered)))"
proof (intro conjI allI impI)
  show "find_with hostSort query projection opts s =
     Inr (let filtered = filter (\<lambda>el. elementIsValidForQuery (Obj (heap s el)) query = Inr True)
                           (content s);
              sorted = (case sort_opt opts of
                          None \<Rightarrow> filtered
                        | Some sortSpec \<Rightarrow>
                            if sortSpec = [] then filtered
                            else hostSort (\<lambda>a b. compare_keys (heap s a) (heap s b)
                                               sortSpec (map fst sortSpec)) filtered);
              skipped = (case skip opts of
                           None \<Rightarrow> sorted
                         | Some n \<Rightarrow> if 0 < n then drop (nat n) sorted else sorted);
              limited = (case limit opts of
                           None \<Rightarrow> skipped
                         | Some n \<Rightarrow> if 0 < n then take (nat n) skipped else skipped)
          in case projection of
               None \<Rightarrow> map Stored limited
             | Some p \<Rightarrow> map (\<lambda>el. View (project p (heap s el))) limited)"
    using assms(1) filter_content_total [OF assms(2)]
    by (simp add: find_with_def project_stage_def limit_stage_def skip_stage_def
        sort_stage_with_def splice_skip splice_limit Let_def orderByManyProperties_from_start
        split: option.splits)
next
  show "find_docs query projection opts s = find_with js_sort query projection opts s"
    by (simp add: find_docs_def)
next
  fix sortSpec
  let ?cmp = "\<lambda>a b. compare_keys (heap s a) (heap s b) sortSpec (map fst sortSpec)"
  let ?F = "filter (\<lambda>el. elementIsValidForQuery (Obj (heap s el)) query = Inr True) (content s)"
  assume c: "consistent_on ?cmp ?F"
  have st: "filter (\<lambda>b. ?cmp a b = 0) (js_sort ?cmp ?F) = filter (\<lambda>b. ?cmp a b = 0) ?F"
    if "a \<in> set ?F" for a
  proof -
    from c have "consistent_on ?cmp (a # ?F)"
      by (rule consistent_on_subset) (use that in auto)
    then show ?thesis by (rule stable_js_sort)
  qed
  show "let cmp = ?cmp; filtered = ?F; sorted = js_sort cmp filtered
         in (\<forall>el. count_list sorted el = count_list filtered el) \<and>
            sorted_wrt (\<lambda>a b. cmp a b \<le> 0) sorted \<and>
            (\<forall>a \<in> set filtered.
               filter (\<lambda>b. cmp a b = 0) sorted = filter (\<lambda>b. cmp a b = 0) filtered)"
    unfolding Let_def using sorted_js_sort [OF c] st by (simp add: count_js_sort)
qed

theorem find_stage_order_witness:
  "find_docs (Obj [(''num'', Obj [(''$gte'', Num 2)])]) (Some [(''_id'', Num 0), (''num'', Num 1)])
     (no_options\<lparr>sort_opt := Some [(''num'', Num (- 1))], skip := Some 1, limit := Some 2\<rparr>) ex_four
   = Inr [View [(''num'', Num 3)], View [(''num'', Num 2)]] \<and>
   sorted_wrt (\<lambda>a b. compare_keys (heap ex_four a) (heap ex_four b) [(''num'', Num (- 1))]
                        [''num''] \<le> 0) [3, 2, 1]"
proof -
  let ?q = "Obj [(''num'', Obj [(''$gte'', Num 2)])]"
  let ?p = "[(''_id'', Num 0), (''num'', Num 1)]"
  let ?o = "no_options\<lparr>sort_opt := Some [(''num'', Num (- 1))], skip := Some 1, limit := Some 2\<rparr>"
  have h1: "typeof_object ?q" by simp
  have m: "\<forall>el \<in> set (content ex_four).
             elementIsValidForQuery (Obj (heap ex_four el)) ?q = Inr (1 \<le> el)"
    by code_simp
  then have h2: "\<forall>el \<in> set (content ex_four).
              \<exists>b. elementIsValidForQuery (Obj (heap ex_four el)) ?q = Inr b"
    by blast
  have h3: "\<forall>p. Some ?p = Some p \<longrightarrow> list_all ordinary_key (map fst p)"
    by (simp add: ordinary_key_def is_digit_def)
  note t = find_stage_order [where hostSort = js_sort and projection = "Some ?p"
      and opts = "?o" and query = "?q" and s = ex_four, OF h1 h2 h3]
  have v: "find_docs ?q (Some ?p) ?o ex_four = Inr [View [(''num'', Num 3)], View [(''num'', Num 2)]]"
    unfolding t [THEN conjunct2, THEN conjunct1] t [THEN conjunct1] by code_simp
  let ?cmp = "\<lambda>a b. compare_keys (heap ex_four a) (heap ex_four b) [(''num'', Num (- 1))]
                 (map fst [(''num'', Num (- 1))])"
  have f: "filter (\<lambda>el. elementIsValidForQuery (Obj (heap ex_four el)) ?q = Inr True)
             (content ex_four) = [1, 2, 3]"
    by code_simp
  have c: "consistent_on ?cmp
             (filter (\<lambda>el. elementIsValidForQuery (Obj (heap ex_four el)) ?q = Inr True)
                (content ex_four))"
    unfolding f by code_simp
  from t [THEN conjunct2, THEN conjunct2, rule_format, OF c]
  have srt: "sorted_wrt (\<lambda>a b. ?cmp a b \<le> 0) (js_sort ?cmp [1, 2, 3])"
    by (simp add: Let_def f)
  have val: "js_sort ?cmp [1, 2, 3] = [3, 2, 1]"
    by code_simp
  from v srt val show ?thesis by simp
qed


section \<open>Properties of notification and removal\<close>

lemma strict_eq_primitive: "primitive b \<Longrightarrow> strict_eq a b = (a = b)"
  by (cases a; cases b) simp_all

lemma findIndex_first:
  "\<exists>x \<in> set xs. p x \<Longrightarrow>
   nat (findIndex p xs) < length xs \<and> p (xs ! nat (findIndex p xs)) \<and>
   (\<forall>j < nat (findIndex p xs). \<not> p (xs ! j))"
proof (induction xs)
  case Nil
  then show ?case by simp
next
  case (Cons x xs)
  show ?case
  proof (cases "p x")
    case True
    then show ?thesis by simp
  next
    case False
    with Cons.prems have ex: "\<exists>x \<in> set xs. p x" by simp
    then have nn: "0 \<le> findIndex p xs" by (simp add: findIndex_nonneg)
    then have suc: "nat (findIndex p xs + 1) = Suc (nat (findIndex p xs))" by simp
    from Cons.IH [OF ex] False nn show ?thesis
      by (auto simp: Let_def suc less_Suc_eq_0_disj)
  qed
qed

lemma notify_fields:
  "content (notifyChangesForIds ids op s) = content s"
  "heap (notifyChangesForIds ids op s) = heap s"
  "watchers (notifyChangesForIds ids op s) = watchers s"
  "delivered (notifyChangesForIds ids op s) = delivered s"
  "lastId (notifyChangesForIds ids op s) = lastId s"
  "name (notifyChangesForIds ids op s) = name s"
  "nextRef (notifyChangesForIds ids op s) = nextRef s"
  "notifyTimeout (notifyChangesForIds ids op s) = Some (nextTimer s)"
  "nextTimer (notifyChangesForIds ids op s) = Suc (nextTimer s)"
  "timers (notifyChangesForIds ids op s) =
     (case notifyTimeout s of Some h \<Rightarrow> filter (\<lambda>t. t \<noteq> h) (timers s) | None \<Rightarrow> timers s)
     @ [nextTimer s]"
  by (simp_all add: notifyChangesForIds_def setTimeout_def clearTimeout_def Let_def
      split: option.splits)

lemma change_for_cong:
  "name s1 = name s \<Longrightarrow> content s1 = content s \<Longrightarrow> heap s1 = heap s \<Longrightarrow>
   change_for s1 op = change_for s op"
  by (rule ext) (simp add: change_for_def doc_id_def)

lemma notify_buffer:
  "changesToNotify (notifyChangesForIds ids op s) =
     filter (\<lambda>el. \<forall>i \<in> set ids. \<not> strict_eq i (ch_id el)) (changesToNotify s)
     @ map (change_for s op) ids"
proof -
  have c: "change_for (s\<lparr>timers := ts, notifyTimeout := None\<rparr>) op = change_for s op" for ts
    by (rule change_for_cong) simp_all
  show ?thesis
    by (simp add: notifyChangesForIds_def setTimeout_def clearTimeout_def Let_def findIndex_neg c
        split: option.splits)
qed

lemma remove_each_frame:
  "remove_each rs ids s = (ids', s') \<Longrightarrow>
   heap s' = heap s \<and> name s' = name s \<and> watchers s' = watchers s \<and>
   changesToNotify s' = changesToNotify s \<and> notifyTimeout s' = notifyTimeout s \<and>
   timers s' = timers s \<and> nextTimer s' = nextTimer s \<and> nextRef s' = nextRef s \<and>
   delivered s' = delivered s \<and> lastId s' = lastId s"
proof (induction rs arbitrary: ids s)
  case Nil
  then show ?case by simp
next
  case (Cons r rs)
  show ?case
  proof (cases "0 \<le> findIndex (\<lambda>el. strict_eq (doc_id s el) (doc_id s r)) (content s)")
    case True
    with Cons.prems Cons.IH [of "ids @ [doc_id s r]"
        "s\<lparr>content := remove_at (content s)
              (nat (findIndex (\<lambda>el. strict_eq (doc_id s el) (doc_id s r)) (content s)))\<rparr>"]
    show ?thesis by (simp add: Let_def)
  next
    case False
    with Cons.prems Cons.IH [of ids s] show ?thesis by (simp add: Let_def)
  qed
qed

lemma find_docs_total:
  assumes "typeof_object query"
    and "\<forall>el \<in> set (content s). \<exists>b. elementIsValidForQuery (Obj (heap s el)) query = Inr b"
  shows "find_docs query None opts s =
     Inr (map Stored (limit_stage opts (skip_stage opts (sort_stage s opts
       (filter (\<lambda>el. elementIsValidForQuery (Obj (heap s el)) query = Inr True) (content s))))))"
  using assms(1) filter_content_total [OF assms(2)]
  by (simp add: find_docs_def find_with_def sort_stage_def sort_stage_with_def project_stage_def)

lemma stored_map_Stored: "stored (map Stored rs) = rs"
  by (induction rs) simp_all

lemma flush_fields:
  "delivered (flush s) = delivered s @ map (\<lambda>(w, cb). (cb, w, changesToNotify s)) (watchers s)"
  "changesToNotify (flush s) = []"
  by (simp_all add: flush_def)


lemma change_for_id: "map ch_id (map (change_for s op) ids) = ids"
  by (induction ids) (simp_all add: change_for_def)

text \<open>
  The notification step keeps one pending change per id as long as the ids it is given
  are different primitive values.
\<close>

lemma notify_one_change_per_id:
  assumes "distinct (map ch_id (changesToNotify s))" and "distinct ids"
    and "\<forall>i \<in> set ids. primitive i"
  shows "distinct (map ch_id (changesToNotify (notifyChangesForIds ids op s)))"
proof -
  have p: "(\<lambda>el. \<forall>i \<in> set ids. \<not> strict_eq i (ch_id el)) = (\<lambda>el. ch_id el \<notin> set ids)"
    using assms(3) by (auto simp: strict_eq_primitive_left)
  have "map ch_id (changesToNotify (notifyChangesForIds ids op s)) =
        filter (\<lambda>i. i \<notin> set ids) (map ch_id (changesToNotify s)) @ ids"
    by (simp add: notify_buffer p change_for_id filter_map comp_def del: map_map)
  with assms(1,2) show ?thesis by auto
qed

text \<open>
  Claim C4. The pending-changes buffer should hold at most one Change per \<open>_id\<close> at all
  times. \<open>insert([{_id: '0', num: 1}, {_id: '0', num: 5}])\<close> on a new collection is
  accepted and leaves two pending changes for the id \<open>'0'\<close>.
\<close>

theorem duplicate_ids_pending_twice:
  "fst (insert_docs (Documents [0, 1]) (new_collection ''test-collection'' ex_heap 3)) = Inr () \<and>
   map ch_id (changesToNotify
     (snd (insert_docs (Documents [0, 1]) (new_collection ''test-collection'' ex_heap 3))))
     = [Str ''0'', Str ''0'']"
  by code_simp

text \<open>
  Claim C10. Every call of \<open>remove\<close> whose query is valid and on which the matcher does
  not throw resolves, clears the timeout that was pending and arms a new one, also when
  no document matches. In that case the store and the pending changes are untouched,
  and when the new timeout fires every subscriber is called with the pending changes
  as they were, an empty array if there were none.
\<close>

theorem remove_always_schedules_flush:
  assumes "typeof_object query"
    and "\<forall>el \<in> set (content s). \<exists>b. elementIsValidForQuery (Obj (heap s el)) query = Inr b"
  shows "(let s' = snd (remove query opts s) in
          fst (remove query opts s) = Inr () \<and>
          notifyTimeout s' = Some (nextTimer s) \<and>
          nextTimer s \<in> set (timers s') \<and>
          (\<forall>h. notifyTimeout s = Some h \<and> h \<noteq> nextTimer s \<longrightarrow> h \<notin> set (timers s')) \<and>
          ((\<forall>el \<in> set (content s). elementIsValidForQuery (Obj (heap s el)) query = Inr False) \<longrightarrow>
             content s' = content s \<and> changesToNotify s' = changesToNotify s \<and>
             delivered (fire (nextTimer s) s') =
               delivered s @ map (\<lambda>(w, cb). (cb, w, changesToNotify s)) (watchers s) \<and>
             changesToNotify (fire (nextTimer s) s') = []))"
proof -
  define o1 where "o1 = (if justOne opts then no_options\<lparr>limit := Some 1\<rparr> else no_options)"
  define rs where "rs = limit_stage o1 (skip_stage o1 (sort_stage s o1
       (filter (\<lambda>el. elementIsValidForQuery (Obj (heap s el)) query = Inr True) (content s))))"
  obtain ids s1 where loop: "remove_each rs [] s = (ids, s1)"
    by (cases "remove_each rs [] s")
  have rem: "remove query opts s = (Inr (), notifyChangesForIds ids OpRemove s1)"
    using find_docs_total [OF assms, of o1] loop
    by (simp add: remove_def o1_def rs_def stored_map_Stored)
  note fr = remove_each_frame [OF loop]
  have none: "ids = [] \<and> s1 = s"
    if "\<forall>el \<in> set (content s). elementIsValidForQuery (Obj (heap s el)) query = Inr False"
  proof -
    from that have "filter (\<lambda>el. elementIsValidForQuery (Obj (heap s el)) query = Inr True)
        (content s) = []"
      by (simp add: filter_empty_conv)
    then have "rs = []"
      by (simp add: rs_def o1_def limit_stage_def skip_stage_def sort_stage_def sort_stage_with_def no_options_def
          js_splice_def)
    with loop show ?thesis by simp
  qed
  show ?thesis
    using fr none
    by (auto simp: rem Let_def notify_fields notify_buffer fire_def flush_fields clearTimeout_def
        split: option.splits)
qed


theorem remove_always_schedules_flush_witness:
  "changesToNotify ex_idle = [] \<and> timers ex_idle = [] \<and>
   fst (remove (Obj [(''num'', Num 999)]) no_options ex_idle) = Inr () \<and>
   timers (snd (remove (Obj [(''num'', Num 999)]) no_options ex_idle)) = [nextTimer ex_idle] \<and>
   delivered (fire (nextTimer ex_idle) (snd (remove (Obj [(''num'', Num 999)]) no_options ex_idle)))
     = delivered ex_idle @ [(8, 7, [])]"
proof -
  have h1: "typeof_object (Obj [(''num'', Num 999)])" by simp
  have f: "\<forall>el \<in> set (content ex_idle).
      elementIsValidForQuery (Obj (heap ex_idle el)) (Obj [(''num'', Num 999)]) = Inr False"
    by code_simp
  then have h2: "\<forall>el \<in> set (content ex_idle).
      \<exists>b. elementIsValidForQuery (Obj (heap ex_idle el)) (Obj [(''num'', Num 999)]) = Inr b"
    by blast
  have e: "changesToNotify ex_idle = []" "timers ex_idle = []" "watchers ex_idle = [(7, 8)]"
    by code_simp+
  have t: "timers (snd (remove (Obj [(''num'', Num 999)]) no_options ex_idle)) = [nextTimer ex_idle]"
    by code_simp
  from remove_always_schedules_flush [OF h1 h2, of no_options] f
  have "fst (remove (Obj [(''num'', Num 999)]) no_options ex_idle) = Inr () \<and>
    delivered (fire (nextTimer ex_idle) (snd (remove (Obj [(''num'', Num 999)]) no_options ex_idle)))
     = delivered ex_idle @ map (\<lambda>(w, cb). (cb, w, changesToNotify ex_idle)) (watchers ex_idle)"
    by (simp add: Let_def)
  with e t show ?thesis by simp
qed

lemma remove_at_length: "i < length xs \<Longrightarrow> length (remove_at xs i) = length xs - 1"
  by (simp add: remove_at_def)

text \<open>
  Claim C9, as stated: with \<open>{justOne: true, sort: S}\<close> the document removed is the
  first of the matches sorted by \<open>S\<close>. On the collection of the tests, sorted by
  descending \<open>num\<close> the first match is the document with \<open>num: 4\<close> (reference 3), but
  \<open>remove({}, {justOne: true, sort: {num: -1}})\<close> removes the document with \<open>num: 1\<close>
  (reference 0).
\<close>

theorem remove_justOne_sort_counterexample:
  "find_docs (Obj []) None (no_options\<lparr>sort_opt := Some [(''num'', Num (- 1))]\<rparr>) ex_four
     = Inr [Stored 3, Stored 2, Stored 1, Stored 0] \<and>
   content (snd (remove (Obj [])
              (no_options\<lparr>justOne := True, sort_opt := Some [(''num'', Num (- 1))]\<rparr>) ex_four))
     = [1, 2, 3]"
  by code_simp

text \<open>
  Claim C9, amended. For every call \<open>remove(query, {justOne: true, sort: S})\<close> on a
  collection with at least one match, exactly one document is removed, and \<open>S\<close> plays
  no part: \<open>remove\<close> passes only \<open>{limit: 1}\<close> to \<open>find\<close>, so the document removed is
  the first stored document that carries the \<open>_id\<close> of the first match in store order.
\<close>

theorem remove_justOne_ignores_sort:
  assumes "typeof_object query" and "justOne opts"
    and "\<forall>el \<in> set (content s). \<exists>b. elementIsValidForQuery (Obj (heap s el)) query = Inr b"
    and "filter (\<lambda>el. elementIsValidForQuery (Obj (heap s el)) query = Inr True) (content s) = m # ms"
    and "primitive (doc_id s m)"
  shows "fst (remove query opts s) = Inr () \<and>
         (\<exists>i < length (content s).
            content (snd (remove query opts s)) = remove_at (content s) i \<and>
            doc_id s (content s ! i) = doc_id s m \<and>
            (\<forall>j < i. doc_id s (content s ! j) \<noteq> doc_id s m)) \<and>
         length (content (snd (remove query opts s))) = length (content s) - 1 \<and>
         remove query (opts\<lparr>sort_opt := sortSpec\<rparr>) s = remove query opts s"
proof -
  define o1 where "o1 = no_options\<lparr>limit := Some 1\<rparr>"
  have rs: "limit_stage o1 (skip_stage o1 (sort_stage s o1 (m # ms))) = [m]"
    by (simp add: o1_def limit_stage_def skip_stage_def sort_stage_def sort_stage_with_def no_options_def splice_limit)
  define p where "p = (\<lambda>el. strict_eq (doc_id s el) (doc_id s m))"
  from assms(4) have "m \<in> set (filter (\<lambda>el. elementIsValidForQuery (Obj (heap s el)) query = Inr True) (content s))"
    by simp
  then have mem: "m \<in> set (content s)" by simp
  have pm: "p el = (doc_id s el = doc_id s m)" for el
    by (simp add: p_def strict_eq_primitive [OF assms(5)])
  from mem pm have ex: "\<exists>x \<in> set (content s). p x" by auto
  note first = findIndex_first [OF ex]
  from ex have nn: "0 \<le> findIndex p (content s)" by (simp add: findIndex_nonneg)
  have rem: "remove query opts s =
     (Inr (), notifyChangesForIds [doc_id s m] OpRemove
        (s\<lparr>content := remove_at (content s) (nat (findIndex p (content s)))\<rparr>))"
    using find_docs_total [OF assms(1,3), of o1] assms(2,4) rs nn
    by (simp add: remove_def o1_def stored_map_Stored Let_def p_def)
  have same: "remove query (opts\<lparr>sort_opt := sortSpec\<rparr>) s = remove query opts s"
    by (simp add: remove_def)
  from first have "nat (findIndex p (content s)) < length (content s) \<and>
      doc_id s (content s ! nat (findIndex p (content s))) = doc_id s m \<and>
      (\<forall>j < nat (findIndex p (content s)). doc_id s (content s ! j) \<noteq> doc_id s m)"
    by (metis pm)
  with same show ?thesis
    by (auto simp: rem notify_fields remove_at_length)
qed


theorem remove_justOne_ignores_sort_witness:
  "fst (remove (Obj []) (no_options\<lparr>justOne := True, sort_opt := Some [(''num'', Num (- 1))]\<rparr>) ex_four)
     = Inr () \<and>
   length (content (snd (remove (Obj [])
      (no_options\<lparr>justOne := True, sort_opt := Some [(''num'', Num (- 1))]\<rparr>) ex_four))) = 3"
proof -
  have h1: "typeof_object (Obj [])" by simp
  have h2: "justOne (no_options\<lparr>justOne := True, sort_opt := Some [(''num'', Num (- 1))]\<rparr>)" by simp
  have h3: "\<forall>el \<in> set (content ex_four).
              \<exists>b. elementIsValidForQuery (Obj (heap ex_four el)) (Obj []) = Inr b"
    by (auto simp: elementIsValidForQuery.simps negate_simps)
  have c: "content ex_four = [0, 1, 2, 3]" by code_simp
  have h4: "filter (\<lambda>el. elementIsValidForQuery (Obj (heap ex_four el)) (Obj []) = Inr True)
              (content ex_four) = 0 # [1, 2, 3]"
    by (simp add: c elementIsValidForQuery.simps negate_simps)
  have h5: "primitive (doc_id ex_four 0)" by code_simp
  from remove_justOne_ignores_sort [OF h1 h2 h3 h4 h5] c
  show ?thesis by simp
qed

section \<open>Properties of update\<close>

lemma delete_fold:
  "foldl (\<lambda>d key. if key \<noteq> ''_id'' then delete_prop d key else d) d ks =
   filter (\<lambda>kv. fst kv = ''_id'' \<or> fst kv \<notin> set ks) d"
proof (induction ks arbitrary: d)
  case Nil
  then show ?case by simp
next
  case (Cons k ks)
  let ?f = "\<lambda>d key. if key \<noteq> ''_id'' then delete_prop d key else d"
  show ?case
  proof (cases "k = ''_id''")
    case True
    have "foldl ?f d (k # ks) = foldl ?f d ks" using True by simp
    also have "\<dots> = filter (\<lambda>kv. fst kv = ''_id'' \<or> fst kv \<notin> set ks) d" by (rule Cons.IH)
    also have "\<dots> = filter (\<lambda>kv. fst kv = ''_id'' \<or> fst kv \<notin> set (k # ks)) d"
      using True by (induction d) auto
    finally show ?thesis .
  next
    case False
    have "foldl ?f d (k # ks) = foldl ?f (filter (\<lambda>kv. fst kv \<noteq> k) d) ks"
      using False by (simp add: delete_prop_def)
    also have "\<dots> = filter (\<lambda>kv. fst kv = ''_id'' \<or> fst kv \<notin> set ks)
                       (filter (\<lambda>kv. fst kv \<noteq> k) d)"
      by (rule Cons.IH)
    also have "\<dots> = filter (\<lambda>kv. fst kv = ''_id'' \<or> fst kv \<notin> set (k # ks)) d"
      using False by (induction d) auto
    finally show ?thesis .
  qed
qed

lemma clear_fields_eq: "clear_fields d = filter (\<lambda>kv. fst kv = ''_id'') d"
  unfolding clear_fields_def delete_fold
  by (rule filter_cong) auto

lemma set_prop_append: "k \<notin> fst ` set d \<Longrightarrow> set_prop d k v = d @ [(k, v)]"
  by (induction d) auto

lemma assign_fields_eq:
  "distinct (map fst kvs) \<Longrightarrow>
   \<forall>kv \<in> set kvs. fst kv \<noteq> ''_id'' \<longrightarrow> fst kv \<notin> fst ` set b \<Longrightarrow>
   assign_fields b kvs = b @ filter (\<lambda>kv. fst kv \<noteq> ''_id'') kvs"
proof (induction kvs arbitrary: b)
  case Nil
  then show ?case by (simp add: assign_fields_def)
next
  case (Cons kv kvs)
  show ?case
  proof (cases "fst kv = ''_id''")
    case True
    with Cons.IH [of b] Cons.prems show ?thesis
      by (simp add: assign_fields_def)
  next
    case False
    with Cons.prems have new: "fst kv \<notin> fst ` set b" by simp
    have step: "assign_fields b (kv # kvs) = assign_fields (b @ [kv]) kvs"
      using False set_prop_append [OF new, of "snd kv"] by (simp add: assign_fields_def)
    have "\<forall>kv' \<in> set kvs. fst kv' \<noteq> ''_id'' \<longrightarrow> fst kv' \<notin> fst ` set (b @ [kv])"
    proof (intro ballI impI)
      fix kv' assume a: "kv' \<in> set kvs" "fst kv' \<noteq> ''_id''"
      with Cons.prems(2) have "fst kv' \<notin> fst ` set b" by simp
      moreover from a(1) Cons.prems(1) have "fst kv' \<noteq> fst kv" by (auto simp: image_iff)
      ultimately show "fst kv' \<notin> fst ` set (b @ [kv])" by simp
    qed
    with Cons.IH [of "b @ [kv]"] Cons.prems(1) False step show ?thesis by simp
  qed
qed

lemma replace_in_place:
  "distinct (map fst kvs) \<Longrightarrow>
   assign_fields (clear_fields d) kvs =
   filter (\<lambda>kv. fst kv = ''_id'') d @ filter (\<lambda>kv. fst kv \<noteq> ''_id'') kvs"
  by (rule trans [OF assign_fields_eq]) (auto simp: clear_fields_eq)

lemma map_of_id_filter:
  "map_of (filter (\<lambda>kv. fst kv = k) d @ filter (\<lambda>kv. fst kv \<noteq> k) kvs) k = map_of d k"
proof -
  have a: "map_of (filter (\<lambda>kv. fst kv \<noteq> k) kvs) k = None"
    by (induction kvs) auto
  have b: "map_of (filter (\<lambda>kv. fst kv = k) d) k = map_of d k"
    by (induction d) auto
  show ?thesis by (simp add: map_add_def a b split: option.splits)
qed

lemma replace_in_place_id:
  "read_prop (filter (\<lambda>kv. fst kv = ''_id'') d @ filter (\<lambda>kv. fst kv \<noteq> ''_id'') kvs) ''_id''
   = read_prop d ''_id''"
  by (simp add: read_prop_def map_of_id_filter del: map_of_append)

text \<open>The loop of update writes the heap only.\<close>

lemma update_each_frame:
  "update_each modify replace rs s = (e, s') \<Longrightarrow>
   content s' = content s \<and> name s' = name s \<and> watchers s' = watchers s \<and>
   changesToNotify s' = changesToNotify s \<and> notifyTimeout s' = notifyTimeout s \<and>
   timers s' = timers s \<and> nextTimer s' = nextTimer s \<and> nextRef s' = nextRef s \<and>
   delivered s' = delivered s \<and> lastId s' = lastId s"
proof (induction rs arbitrary: s)
  case Nil
  then show ?case by simp
next
  case (Cons r rs)
  show ?case
  proof (cases "modify (Obj (heap s r)) replace")
    case (Inl x)
    with Cons.prems show ?thesis by simp
  next
    case m: (Inr modified)
    show ?thesis
    proof (cases "entries modified")
      case (Inl x)
      with m Cons.prems show ?thesis by (auto simp: Let_def)
    next
      case (Inr kvs)
      with m Cons.prems
      have "update_each modify replace rs
              (s\<lparr>heap := (heap s)(r := assign_fields (clear_fields (heap s r)) kvs)\<rparr>) = (e, s')"
        by (simp add: Let_def)
      from Cons.IH [OF this] show ?thesis by simp
    qed
  qed
qed

lemma update_each_heap:
  assumes "distinct rs"
    and "\<forall>r \<in> set rs. \<exists>kvs. modify (Obj (heap s r)) replace = Inr (Obj kvs)"
  shows "fst (update_each modify replace rs s) = None \<and>
         (\<forall>r. heap (snd (update_each modify replace rs s)) r =
            (if r \<in> set rs
             then (case modify (Obj (heap s r)) replace of
                     Inr (Obj kvs) \<Rightarrow> assign_fields (clear_fields (heap s r)) kvs
                   | _ \<Rightarrow> heap s r)
             else heap s r))"
  using assms
proof (induction rs arbitrary: s)
  case Nil
  then show ?case by simp
next
  case (Cons r rs)
  from Cons.prems(2) obtain kvs where m: "modify (Obj (heap s r)) replace = Inr (Obj kvs)"
    by auto
  define s1 where "s1 = s\<lparr>heap := (heap s)(r := assign_fields (clear_fields (heap s r)) kvs)\<rparr>"
  have step: "update_each modify replace (r # rs) s = update_each modify replace rs s1"
    using m by (simp add: s1_def Let_def)
  from Cons.prems(1) have nr: "r \<notin> set rs" and d: "distinct rs" by simp_all
  have same: "r' \<in> set rs \<Longrightarrow> heap s1 r' = heap s r'" for r'
    using nr by (auto simp: s1_def)
  with Cons.prems(2) have "\<forall>r \<in> set rs. \<exists>kvs. modify (Obj (heap s1 r)) replace = Inr (Obj kvs)"
    by simp
  from Cons.IH [OF d this] have ih: "fst (update_each modify replace rs s1) = None"
    "\<And>r. heap (snd (update_each modify replace rs s1)) r =
            (if r \<in> set rs
             then (case modify (Obj (heap s1 r)) replace of
                     Inr (Obj kvs) \<Rightarrow> assign_fields (clear_fields (heap s1 r)) kvs
                   | _ \<Rightarrow> heap s1 r)
             else heap s1 r)"
    by simp_all
  show ?case
  proof (intro conjI allI)
    show "fst (update_each modify replace (r # rs) s) = None" unfolding step by (rule ih)
  next
    fix r'
    show "heap (snd (update_each modify replace (r # rs) s)) r' =
            (if r' \<in> set (r # rs)
             then (case modify (Obj (heap s r')) replace of
                     Inr (Obj kvs) \<Rightarrow> assign_fields (clear_fields (heap s r')) kvs
                   | _ \<Rightarrow> heap s r')
             else heap s r')"
    proof (cases "r' \<in> set rs")
      case True
      with nr have "r' \<noteq> r" by auto
      with True show ?thesis unfolding step by (simp add: ih same split: sum.splits jsval.splits)
    next
      case False
      with ih(2) [of r'] have "heap (snd (update_each modify replace rs s1)) r' = heap s1 r'"
        by simp
      then show ?thesis unfolding step using m False by (simp add: s1_def)
    qed
  qed
qed


lemma insert_sorted_distinct: "distinct (insert_sorted cmp x xs) = (x \<notin> set xs \<and> distinct xs)"
  by (induction xs) (auto simp: insert_sorted_set)

lemma js_sort_distinct: "distinct (js_sort cmp xs) = distinct xs"
proof (induction xs)
  case Nil
  then show ?case by (simp add: js_sort_def)
next
  case (Cons x xs)
  have "js_sort cmp (x # xs) = insert_sorted cmp x (js_sort cmp xs)"
    by (simp add: js_sort_def)
  with Cons show ?case by (simp add: insert_sorted_distinct js_sort_set)
qed

lemma splice_distinct: "distinct xs \<Longrightarrow> distinct (js_splice xs a b)"
  by (simp add: js_splice_def Let_def)

lemma splice_subset: "set (js_splice xs a b) \<subseteq> set xs"
  by (auto simp: js_splice_def Let_def dest: in_set_takeD in_set_dropD)

lemma stages_distinct:
  "distinct xs \<Longrightarrow> distinct (limit_stage opts (skip_stage opts (sort_stage s opts xs)))"
  by (simp add: limit_stage_def skip_stage_def sort_stage_def sort_stage_with_def splice_distinct js_sort_distinct
      Let_def split: option.splits)

lemma stages_subset:
  "set (limit_stage opts (skip_stage opts (sort_stage s opts xs))) \<subseteq> set xs"
proof -
  have a: "set (limit_stage opts ys) \<subseteq> set ys" for ys :: "ref list"
    using splice_subset [of ys] by (auto simp: limit_stage_def split: option.splits)
  have b: "set (skip_stage opts ys) \<subseteq> set ys" for ys :: "ref list"
    using splice_subset [of ys] by (auto simp: skip_stage_def split: option.splits)
  have c: "set (sort_stage s opts xs) = set xs"
    by (simp add: sort_stage_def sort_stage_with_def js_sort_set Let_def split: option.splits)
  from a b c show ?thesis by blast
qed

lemma find_docs_results:
  assumes "find_docs query None opts s = Inr found"
  shows "set (stored found) \<subseteq> set (content s)"
    and "distinct (content s) \<Longrightarrow> distinct (stored found)"
proof -
  from assms obtain matched where
    m: "filter_content (\<lambda>el. elementIsValidForQuery (Obj (heap s el)) query) (content s) = Inr matched"
    and f: "found = map Stored (limit_stage opts (skip_stage opts (sort_stage s opts matched)))"
    by (auto simp: find_docs_def find_with_def sort_stage_def sort_stage_with_def project_stage_def split: if_splits sum.splits)
  from filter_content_Inr [OF m] have mm: "set matched \<subseteq> set (content s)"
    "distinct (content s) \<Longrightarrow> distinct matched" by auto
  from f mm(1) stages_subset [of opts s matched] show "set (stored found) \<subseteq> set (content s)"
    by (auto simp: stored_map_Stored)
  from f mm(2) stages_distinct [of matched opts s]
  show "distinct (content s) \<Longrightarrow> distinct (stored found)"
    by (simp add: stored_map_Stored)
qed

text \<open>
  Claim C7. For every update that selects at least one document and whose collaborator
  returns an object for each of them, the update succeeds, the store holds the same
  document instances, every document keeps its \<open>_id\<close>, and each selected document
  consists of its old \<open>_id\<close> property followed by the properties of the patched result
  other than \<open>_id\<close>; the other documents are untouched. (The stored references are
  distinct, and a patched result lists each key once.)
\<close>

theorem update_replaces_fields_keeps_id:
  assumes "typeof_object replace"
    and "find_docs query None opts s = Inr found" and "stored found \<noteq> []"
    and "distinct (content s)"
    and "\<forall>r \<in> set (stored found).
           \<exists>kvs. modify (Obj (heap s r)) replace = Inr (Obj kvs) \<and> distinct (map fst kvs)"
  shows "(let s' = snd (update modify query replace opts s) in
          fst (update modify query replace opts s) = Inr () \<and>
          content s' = content s \<and>
          (\<forall>r. doc_id s' r = doc_id s r) \<and>
          (\<forall>r \<in> set (stored found). \<forall>kvs. modify (Obj (heap s r)) replace = Inr (Obj kvs) \<longrightarrow>
             heap s' r = filter (\<lambda>kv. fst kv = ''_id'') (heap s r)
                         @ filter (\<lambda>kv. fst kv \<noteq> ''_id'') kvs) \<and>
          (\<forall>r. r \<notin> set (stored found) \<longrightarrow> heap s' r = heap s r))"
proof -
  define rs where "rs = stored found"
  from find_docs_results(2) [OF assms(2,4)] have d: "distinct rs" by (simp add: rs_def)
  from assms(5) have ok: "\<forall>r \<in> set rs. \<exists>kvs. modify (Obj (heap s r)) replace = Inr (Obj kvs)"
    by (auto simp: rs_def)
  obtain e s1 where loop: "update_each modify replace rs s = (e, s1)"
    by (cases "update_each modify replace rs s")
  from update_each_heap [of rs modify s replace, OF d ok] loop have e: "e = None"
    and h: "\<And>r. heap s1 r =
            (if r \<in> set rs
             then (case modify (Obj (heap s r)) replace of
                     Inr (Obj kvs) \<Rightarrow> assign_fields (clear_fields (heap s r)) kvs
                   | _ \<Rightarrow> heap s r)
             else heap s r)"
    by simp_all
  note fr = update_each_frame [OF loop]
  have upd: "update modify query replace opts s =
     (Inr (), notifyChangesForIds (map (doc_id s1) rs) OpUpdate s1)"
    using assms(1,2,3) loop e by (simp add: update_def rs_def Let_def)
  have hm: "heap s1 r = filter (\<lambda>kv. fst kv = ''_id'') (heap s r)
                        @ filter (\<lambda>kv. fst kv \<noteq> ''_id'') kvs"
    if "r \<in> set rs" "modify (Obj (heap s r)) replace = Inr (Obj kvs)" for r kvs
  proof -
    from that assms(5) have "distinct (map fst kvs)" by (auto simp: rs_def)
    with that show ?thesis by (simp add: h replace_in_place)
  qed
  have id: "doc_id s1 r = doc_id s r" for r
  proof (cases "r \<in> set rs")
    case True
    with ok obtain kvs where "modify (Obj (heap s r)) replace = Inr (Obj kvs)" by auto
    from hm [OF True this] show ?thesis by (simp add: doc_id_def replace_in_place_id)
  next
    case False
    then show ?thesis by (simp add: doc_id_def h)
  qed
  show ?thesis
    using fr hm id h
    by (simp add: upd Let_def notify_fields doc_id_def rs_def)
qed


theorem update_replaces_fields_keeps_id_witness:
  "fst (update modify_replace (Obj [(''num'', Obj [(''$gte'', Num 3)])])
          (Obj [(''updated'', Bool True)]) no_options ex_four) = Inr () \<and>
   heap (snd (update modify_replace (Obj [(''num'', Obj [(''$gte'', Num 3)])])
          (Obj [(''updated'', Bool True)]) no_options ex_four)) 2
     = [(''_id'', Str ''2''), (''updated'', Bool True)] \<and>
   heap (snd (update modify_replace (Obj [(''num'', Obj [(''$gte'', Num 3)])])
          (Obj [(''updated'', Bool True)]) no_options ex_four)) 0
     = [(''num'', Num 1), (''_id'', Str ''0'')]"
proof -
  let ?q = "Obj [(''num'', Obj [(''$gte'', Num 3)])]"
  let ?p = "Obj [(''updated'', Bool True)]"
  have h1: "typeof_object ?p" by simp
  have h2: "find_docs ?q None no_options ex_four = Inr [Stored 2, Stored 3]" by code_simp
  have h3: "stored [Stored 2, Stored 3] \<noteq> []" by simp
  have h4: "distinct (content ex_four)" by code_simp
  have h5: "\<forall>r \<in> set (stored [Stored 2, Stored 3]).
              \<exists>kvs. modify_replace (Obj (heap ex_four r)) ?p = Inr (Obj kvs) \<and> distinct (map fst kvs)"
    by (simp add: modify_replace_def)
  have m: "modify_replace (Obj (heap ex_four 2)) ?p = Inr (Obj [(''updated'', Bool True)])"
    by (simp add: modify_replace_def)
  have v: "heap ex_four 2 = [(''num'', Num 3), (''_id'', Str ''2'')]"
    "heap ex_four 0 = [(''num'', Num 1), (''_id'', Str ''0'')]"
    by code_simp+
  from update_replaces_fields_keeps_id [where modify = modify_replace and replace = "?p"
      and query = "?q" and opts = no_options and s = ex_four and found = "[Stored 2, Stored 3]",
      OF h1 h2 h3 h4 h5] m v
  show ?thesis by (simp add: Let_def)
qed

lemma filter_content_append:
  "filter_content p (xs @ ys) =
     (case filter_content p xs of
        Inl e \<Rightarrow> Inl e
      | Inr a \<Rightarrow> (case filter_content p ys of Inl e \<Rightarrow> Inl e | Inr b \<Rightarrow> Inr (a @ b)))"
  by (induction xs) (auto split: sum.splits)

lemma filter_content_cong:
  "(\<And>x. x \<in> set xs \<Longrightarrow> p x = q x) \<Longrightarrow> filter_content p xs = filter_content q xs"
  by (induction xs) (auto split: sum.splits)

lemma find_docs_no_options:
  "typeof_object query \<Longrightarrow>
   find_docs query None no_options s =
     (case filter_content (\<lambda>el. elementIsValidForQuery (Obj (heap s el)) query) (content s) of
        Inl e \<Rightarrow> Inl e
      | Inr results \<Rightarrow> Inr (map Stored results))"
  by (simp add: find_docs_def find_with_def sort_stage_def sort_stage_with_def project_stage_def limit_stage_def skip_stage_def sort_stage_def sort_stage_with_def
      no_options_def split: sum.splits)

text \<open>The upsert: \<open>insertOne\<close> of a new object that collides with no stored \<open>_id\<close>.\<close>

lemma insertOne_value_new:
  assumes "read_prop kvs ''_id'' = Undefined \<or>
           (\<forall>el \<in> set (content s). \<not> strict_eq (read_prop kvs ''_id'') (doc_id s el))"
    and "nextRef s \<notin> set (content s)"
  shows "fst (insertOne_value (Obj kvs) s) = Inr ()"
    and "content (snd (insertOne_value (Obj kvs) s)) = content s @ [nextRef s]"
    and "heap (snd (insertOne_value (Obj kvs) s)) =
           (heap s)(nextRef s :=
              (if read_prop kvs ''_id'' = Undefined
               then set_prop kvs ''_id'' (Str (string_of_nat (lastId s))) else kvs))"
proof -
  define n where "n = nextRef s"
  define s1 where "s1 = s\<lparr>heap := (heap s)(n := kvs), nextRef := n + 1\<rparr>"
  have io: "insertOne_value (Obj kvs) s = insert_batch [n] s1"
    by (simp add: insertOne_value_def insertOne_def insert_docs_def s1_def n_def)
  have idn: "doc_id s1 n = read_prop kvs ''_id''" by (simp add: doc_id_def s1_def)
  have ids: "doc_id s1 el = doc_id s el" if "el \<in> set (content s)" for el
    using that assms(2) by (auto simp: doc_id_def s1_def n_def)
  have c1: "content s1 = content s" by (simp add: s1_def)
  show "fst (insertOne_value (Obj kvs) s) = Inr ()"
    "content (snd (insertOne_value (Obj kvs) s)) = content s @ [nextRef s]"
    "heap (snd (insertOne_value (Obj kvs) s)) =
           (heap s)(nextRef s :=
              (if read_prop kvs ''_id'' = Undefined
               then set_prop kvs ''_id'' (Str (string_of_nat (lastId s))) else kvs))"
  proof (atomize (full), cases "read_prop kvs ''_id'' = Undefined")
    case True
    then show "fst (insertOne_value (Obj kvs) s) = Inr () \<and>
      content (snd (insertOne_value (Obj kvs) s)) = content s @ [nextRef s] \<and>
      heap (snd (insertOne_value (Obj kvs) s)) =
           (heap s)(nextRef s :=
              (if read_prop kvs ''_id'' = Undefined
               then set_prop kvs ''_id'' (Str (string_of_nat (lastId s))) else kvs))"
      using idn
      by (simp add: io insert_batch_def objectId_def Let_def notify_fields strict_eq_Undefined)
         (simp add: s1_def n_def)
  next
    case False
    with assms(1) have nc: "\<forall>el \<in> set (content s). \<not> strict_eq (read_prop kvs ''_id'') (doc_id s el)"
      by simp
    have "\<not> (\<exists>el \<in> set (content s1). strict_eq (doc_id s1 n) (doc_id s1 el))"
      using nc ids by (simp add: idn c1)
    then have "findIndex (\<lambda>el. strict_eq (doc_id s1 n) (doc_id s1 el)) (content s1) < 0"
      by (simp add: findIndex_neg)
    with False show "fst (insertOne_value (Obj kvs) s) = Inr () \<and>
      content (snd (insertOne_value (Obj kvs) s)) = content s @ [nextRef s] \<and>
      heap (snd (insertOne_value (Obj kvs) s)) =
           (heap s)(nextRef s :=
              (if read_prop kvs ''_id'' = Undefined
               then set_prop kvs ''_id'' (Str (string_of_nat (lastId s))) else kvs))"
      using idn
      by (simp add: io insert_batch_def Let_def notify_fields strict_eq_Undefined)
         (simp add: s1_def n_def)
  qed
qed


text \<open>
  Claim C6, as stated: after an upsert exactly one document was inserted and a find on
  the upserted criteria returns exactly one result. On the collection of the tests,
  \<open>update({num: 999}, {num: 4}, {upsert: true})\<close> selects nothing and inserts
  \<open>{num: 4}\<close>, after which \<open>find({num: 4})\<close> returns two documents and
  \<open>find({num: 999})\<close> none; and \<open>update({_id: '0', num: 999}, {_id: '0', num: 10},
  {upsert: true})\<close> selects nothing and inserts nothing, because the \<open>_id\<close> is taken.
\<close>

theorem upsert_find_counterexample:
  "find_docs (Obj [(''num'', Num 999)]) None (no_options\<lparr>upsert := True\<rparr>) ex_four = Inr [] \<and>
   fst (update modify_replace (Obj [(''num'', Num 999)]) (Obj [(''num'', Num 4)])
          (no_options\<lparr>upsert := True\<rparr>) ex_four) = Inr () \<and>
   find_docs (Obj [(''num'', Num 4)]) None no_options
     (snd (update modify_replace (Obj [(''num'', Num 999)]) (Obj [(''num'', Num 4)])
          (no_options\<lparr>upsert := True\<rparr>) ex_four)) = Inr [Stored 3, Stored 4] \<and>
   find_docs (Obj [(''num'', Num 999)]) None no_options
     (snd (update modify_replace (Obj [(''num'', Num 999)]) (Obj [(''num'', Num 4)])
          (no_options\<lparr>upsert := True\<rparr>) ex_four)) = Inr [] \<and>
   find_docs (Obj [(''_id'', Str ''0''), (''num'', Num 999)]) None (no_options\<lparr>upsert := True\<rparr>)
     ex_four = Inr [] \<and>
   fst (update modify_replace (Obj [(''_id'', Str ''0''), (''num'', Num 999)])
          (Obj [(''_id'', Str ''0''), (''num'', Num 10)]) (no_options\<lparr>upsert := True\<rparr>) ex_four)
     = Inl (Unsettled (DuplicateIdError (Str ''0''))) \<and>
   content (snd (update modify_replace (Obj [(''_id'', Str ''0''), (''num'', Num 999)])
          (Obj [(''_id'', Str ''0''), (''num'', Num 10)]) (no_options\<lparr>upsert := True\<rparr>) ex_four))
     = [0, 1, 2, 3]"
  by code_simp

text \<open>
  Claim C6, amended. For every update whose selection is empty: without \<open>upsert\<close> the
  operation succeeds and leaves the collection as it was. With \<open>upsert\<close>, when the
  document made by the collaborator from the query and the patch has no \<open>_id\<close> or one
  that no stored document has, the operation succeeds and appends exactly that one new
  document (with the next counter id if it had none); a subsequent \<open>find\<close> returns the
  documents that matched before followed by the new one if it matches, so exactly one
  result when the new document is the only match.
\<close>

theorem update_without_match:
  assumes "typeof_object replace" and "find_docs query None opts s = Inr found"
    and "stored found = []"
  shows "(\<not> upsert opts \<longrightarrow> update modify query replace opts s = (Inr (), s)) \<and>
    (upsert opts \<longrightarrow>
       (\<forall>kvs. modify query replace = Inr (Obj kvs) \<and> nextRef s \<notin> set (content s) \<and>
              (read_prop kvs ''_id'' = Undefined \<or>
               (\<forall>el \<in> set (content s). \<not> strict_eq (read_prop kvs ''_id'') (doc_id s el))) \<longrightarrow>
          (let s' = snd (update modify query replace opts s); new = nextRef s in
             fst (update modify query replace opts s) = Inr () \<and>
             content s' = content s @ [new] \<and>
             heap s' = (heap s)(new :=
                (if read_prop kvs ''_id'' = Undefined
                 then set_prop kvs ''_id'' (Str (string_of_nat (lastId s))) else kvs)) \<and>
             (\<forall>q old b. typeof_object q \<and>
                  filter_content (\<lambda>el. elementIsValidForQuery (Obj (heap s el)) q) (content s)
                    = Inr old \<and>
                  elementIsValidForQuery (Obj (heap s' new)) q = Inr b \<longrightarrow>
                  find_docs q None no_options s'
                    = Inr (map Stored (old @ (if b then [new] else [])))))))"
proof (intro conjI impI allI)
  assume "\<not> upsert opts"
  with assms show "update modify query replace opts s = (Inr (), s)"
    by (simp add: update_def Let_def)
next
  fix kvs
  assume u: "upsert opts"
    and pre: "modify query replace = Inr (Obj kvs) \<and> nextRef s \<notin> set (content s) \<and>
              (read_prop kvs ''_id'' = Undefined \<or>
               (\<forall>el \<in> set (content s). \<not> strict_eq (read_prop kvs ''_id'') (doc_id s el)))"
  define s1 where "s1 = snd (insertOne_value (Obj kvs) s)"
  from pre have fresh: "nextRef s \<notin> set (content s)" by simp
  from pre have nc: "read_prop kvs ''_id'' = Undefined \<or>
               (\<forall>el \<in> set (content s). \<not> strict_eq (read_prop kvs ''_id'') (doc_id s el))"
    by simp
  note ins = insertOne_value_new [OF nc fresh]
  have io: "insertOne_value (Obj kvs) s = (Inr (), s1)"
    using ins(1) by (cases "insertOne_value (Obj kvs) s") (simp add: s1_def)
  have upd: "update modify query replace opts s = (Inr (), s1)"
    using assms u pre by (simp add: update_def Let_def io)
  have c: "content s1 = content s @ [nextRef s]" using ins(2) by (simp add: s1_def)
  have h: "heap s1 = (heap s)(nextRef s :=
                (if read_prop kvs ''_id'' = Undefined
                 then set_prop kvs ''_id'' (Str (string_of_nat (lastId s))) else kvs))"
    using ins(3) by (simp add: s1_def)
  have old: "heap s1 el = heap s el" if "el \<in> set (content s)" for el
    using that fresh by (auto simp: h)
  have fnd: "find_docs q None no_options s1 = Inr (map Stored (old @ (if b then [nextRef s] else [])))"
    if "typeof_object q"
      "filter_content (\<lambda>el. elementIsValidForQuery (Obj (heap s el)) q) (content s) = Inr old"
      "elementIsValidForQuery (Obj (heap s1 (nextRef s))) q = Inr b" for q old b
  proof -
    have "filter_content (\<lambda>el. elementIsValidForQuery (Obj (heap s1 el)) q) (content s) =
          filter_content (\<lambda>el. elementIsValidForQuery (Obj (heap s el)) q) (content s)"
      by (rule filter_content_cong) (simp add: old)
    with that show ?thesis
      by (simp add: find_docs_no_options c filter_content_append)
  qed
  show "let s' = snd (update modify query replace opts s); new = nextRef s in
             fst (update modify query replace opts s) = Inr () \<and>
             content s' = content s @ [new] \<and>
             heap s' = (heap s)(new :=
                (if read_prop kvs ''_id'' = Undefined
                 then set_prop kvs ''_id'' (Str (string_of_nat (lastId s))) else kvs)) \<and>
             (\<forall>q old b. typeof_object q \<and>
                  filter_content (\<lambda>el. elementIsValidForQuery (Obj (heap s el)) q) (content s)
                    = Inr old \<and>
                  elementIsValidForQuery (Obj (heap s' new)) q = Inr b \<longrightarrow>
                  find_docs q None no_options s'
                    = Inr (map Stored (old @ (if b then [new] else []))))"
    unfolding Let_def upd snd_conv fst_conv
    using c h fnd by blast
qed

theorem update_without_match_witness:
  "update modify_replace (Obj [(''num'', Num 999)]) (Obj [(''num'', Num 10)]) no_options ex_four
     = (Inr (), ex_four) \<and>
   fst (update modify_replace (Obj [(''num'', Num 999)]) (Obj [(''num'', Num 10)])
          (no_options\<lparr>upsert := True\<rparr>) ex_four) = Inr () \<and>
   content (snd (update modify_replace (Obj [(''num'', Num 999)]) (Obj [(''num'', Num 10)])
          (no_options\<lparr>upsert := True\<rparr>) ex_four)) = [0, 1, 2, 3, 4] \<and>
   find_docs (Obj [(''num'', Num 10)]) None no_options
     (snd (update modify_replace (Obj [(''num'', Num 999)]) (Obj [(''num'', Num 10)])
          (no_options\<lparr>upsert := True\<rparr>) ex_four)) = Inr [Stored 4]"
proof -
  let ?q = "Obj [(''num'', Num 999)]"
  let ?p = "Obj [(''num'', Num 10)]"
  let ?u = "no_options\<lparr>upsert := True\<rparr>"
  let ?s' = "snd (update modify_replace ?q ?p ?u ex_four)"
  have h1: "typeof_object ?p" by simp
  have h2: "find_docs ?q None no_options ex_four = Inr []" by code_simp
  have h2u: "find_docs ?q None ?u ex_four = Inr []" by code_simp
  have h3: "stored [] = []" by simp
  note plain = update_without_match [where modify = modify_replace and replace = "?p"
      and query = "?q" and opts = no_options and s = ex_four and found = "[]", OF h1 h2 h3]
  note ups = update_without_match [where modify = modify_replace and replace = "?p"
      and query = "?q" and opts = "?u" and s = ex_four and found = "[]", OF h1 h2u h3]
  have a: "update modify_replace ?q ?p no_options ex_four = (Inr (), ex_four)"
    using plain by (simp add: no_options_def)
  have m: "modify_replace ?q ?p = Inr (Obj [(''num'', Num 10)])" by (simp add: modify_replace_def)
  have e: "nextRef ex_four = 4" "content ex_four = [0, 1, 2, 3]" "lastId ex_four = 4"
    by code_simp+
  have i: "read_prop [(''num'', Num 10)] ''_id'' = Undefined" by code_simp
  from ups m e i have b:
    "fst (update modify_replace ?q ?p ?u ex_four) = Inr ()"
    "content ?s' = [0, 1, 2, 3, 4]"
    "heap ?s' = (heap ex_four)(4 := set_prop [(''num'', Num 10)] ''_id'' (Str (string_of_nat 4)))"
    "\<And>q old b. typeof_object q \<Longrightarrow>
        filter_content (\<lambda>el. elementIsValidForQuery (Obj (heap ex_four el)) q) (content ex_four)
          = Inr old \<Longrightarrow>
        elementIsValidForQuery (Obj (heap ?s' 4)) q = Inr b \<Longrightarrow>
        find_docs q None no_options ?s' = Inr (map Stored (old @ (if b then [4] else [])))"
    by (simp_all add: Let_def)
  have o: "filter_content (\<lambda>el. elementIsValidForQuery (Obj (heap ex_four el)) ?p) (content ex_four)
          = Inr []" by code_simp
  have n: "elementIsValidForQuery (Obj (heap ?s' 4)) ?p = Inr True"
    unfolding b(3) by code_simp
  from b(4) [OF h1 o n] a b(1,2) show ?thesis by simp
qed


end
